theory Spec2Isabelle
  imports Complex_Main
begin

section \<open>The BingX streaming client (internal/websocket/websocket.go)\<close>

text \<open>
  Go strings and byte slices are sequences of bytes; both are modelled by
  \<^typ>\<open>string\<close>, whose characters are 8-bit.
\<close>

type_synonym bytes = string

subsection \<open>Connection, goroutines, and what the client does to the outside\<close>

text \<open>
  A \<^verbatim>\<open>*websocket.Conn\<close> is identified by the number of the \<^verbatim>\<open>Dial\<close> call that
  returned it. Errors are values; the constructors name the places of the source
  (and of the libraries it calls) that produce them.
\<close>

type_synonym conn = nat

datatype error =
    Err_connection_failed
  | Err_marshal string
  | Err_not_connected
  | Err_subscribe string
  | Err_closing
  | Err_read
  | Err_gzip_EOF
  | Err_gzip_header
  | Err_gzip_corrupt
  | Err_json_syntax
  | Err_json_type
  | Err_scan_EOF
  | Err_scan_newline
  | Err_strconv

text \<open>
  \<^verbatim>\<open>float64\<close> values. Rounding to binary64 is not modelled: the conversion of a
  well-formed numeral is a parameter of the environment below, and a finite value
  is represented by a rational.
\<close>

datatype float64 = Finite rat | PosInf | NegInf | NaN

record PriceUpdate =
  Type :: string
  Symbol :: string
  Price :: float64

record Channel =
  ID :: string
  ReqType :: string
  DataType :: string

text \<open>\<^verbatim>\<open>MarketData\<close>: the fields \<^verbatim>\<open>m.DataType\<close> and \<^verbatim>\<open>m.Data.Price\<close>.\<close>

record MarketData =
  m_DataType :: string
  m_Data_Price :: string

datatype log_line =
    Log_connected
  | Log_subscribed string int int
  | Log_read_error
  | Log_decompression_failed
  | Log_json_decode_failed
  | Log_invalid_price string
  | Log_attempting_reconnection
  | Log_reconnection_failed
  | Log_reconnected
  | Log_closed

text \<open>
  The trace of a run: every call that leaves the client, in program order.
  \<open>Dispatch\<close> records the call \<^verbatim>\<open>ws.dispatch(market)\<close> in \<^verbatim>\<open>handleMessage\<close>, and
  \<open>Handler\<close> the call of the consumer callback.
\<close>

datatype event =
    Dial string
  | WriteMessage conn bytes
  | ConnClose conn
  | Sleep nat
  | Log log_line
  | Go_listen nat
  | Close_quit
  | Dispatch MarketData
  | Handler PriceUpdate

text \<open>
  The environment: the network and the libraries. The \<open>k\<close>-th call of \<^verbatim>\<open>Dial\<close>,
  of \<^verbatim>\<open>WriteMessage\<close> and of \<^verbatim>\<open>uuid.New\<close> is answered by the function at \<open>k\<close>
  (calls are counted from 0 in the state).
\<close>

record env =
  dial_fails :: "nat \<Rightarrow> bool"
  write_fails :: "nat \<Rightarrow> bool"
  close_fails :: "conn \<Rightarrow> bool"
  uuid_New :: "nat \<Rightarrow> string"
  json_Marshal :: "Channel \<Rightarrow> error + bytes"
  gzip_inflate :: "bytes \<Rightarrow> error + bytes"
  json_decode :: "bytes \<Rightarrow> error + MarketData"
  strconv_atof :: "string \<Rightarrow> error + float64"
  math_Ldexp :: "float64 \<Rightarrow> int \<Rightarrow> float64"

text \<open>
  \<^verbatim>\<open>
  type BingXWebSocket struct {
      path           string
      conn           *websocket.Conn
      tokens         []string
      messageHandler func(PriceUpdate)
      mu             sync.RWMutex
      quit           chan struct{}
  }
  \<close>
  \<open>messageHandler\<close> is whether the callback is not \<^verbatim>\<open>nil\<close>; \<open>quit\<close> is whether the
  channel has been closed. The mutex is not modelled: every function below runs
  without interleaving up to its next blocking read.
\<close>

record BingXWebSocket =
  path :: string
  conn :: "conn option"
  tokens :: "string list"
  messageHandler :: bool
  quit :: bool

text \<open>
  A goroutine running \<^verbatim>\<open>listen\<close> is at the head of its loop, blocked in
  \<^verbatim>\<open>conn.ReadMessage()\<close> on the handle it copied, or has returned.
\<close>

datatype pc = At_loop_head | In_ReadMessage conn | Returned

record world = BingXWebSocket +
  events :: "event list"
  n_dial :: nat
  n_write :: nat
  n_uuid :: nat
  goroutines :: "pc list"

definition emit :: "event \<Rightarrow> world \<Rightarrow> world" where
  "emit e w = w\<lparr>events := events w @ [e]\<rparr>"

text \<open>
  \<^verbatim>\<open>
  func NewBingXWebSocket(tokens []string, messageHandler func(PriceUpdate)) *BingXWebSocket
  \<close>
\<close>

definition NewBingXWebSocket :: "string list \<Rightarrow> bool \<Rightarrow> world" where
  "NewBingXWebSocket toks handler =
     \<lparr>path = ''wss://open-api-swap.bingx.com/swap-market'', conn = None, tokens = toks,
      messageHandler = handler, quit = False,
      events = [], n_dial = 0, n_write = 0, n_uuid = 0, goroutines = []\<rparr>"

text \<open>\<^verbatim>\<open>conn.WriteMessage(websocket.TextMessage, data)\<close>: the call and its result.\<close>

definition conn_WriteMessage :: "env \<Rightarrow> conn \<Rightarrow> bytes \<Rightarrow> world \<Rightarrow> bool \<times> world" where
  "conn_WriteMessage E c data w =
     (write_fails E (n_write w),
      emit (WriteMessage c data) (w\<lparr>n_write := n_write w + 1\<rparr>))"

subsection \<open>Connection\<close>

text \<open>
  \<^verbatim>\<open>
  func (ws *BingXWebSocket) subscribeAll() error {
      for i, token := range ws.tokens {
          channel := Channel{ID: uuid.New().String(), ReqType: "sub", DataType: token}
          data, err := json.Marshal(channel)
          if err != nil { return fmt.Errorf("marshal channel %s: %w", token, err) }
          ws.mu.RLock(); conn := ws.conn; ws.mu.RUnlock()
          if conn == nil { return fmt.Errorf("WebSocket not connected") }
          if err := conn.WriteMessage(websocket.TextMessage, data); err != nil {
              return fmt.Errorf("subscribe %s: %w", token, err)
          }
          log.Printf("Subscribed to %s (%d/%d)", token, i+1, len(ws.tokens))
          if i < len(ws.tokens)-1 { time.Sleep(100 * time.Millisecond) }
      }
      return nil
  }
  \<close>
  The loop, at index \<open>i\<close> with the tokens from \<open>i\<close> on still to do.
\<close>

fun subscribe_loop :: "env \<Rightarrow> int \<Rightarrow> string list \<Rightarrow> world \<Rightarrow> error option \<times> world" where
  "subscribe_loop E i [] w = (None, w)"
| "subscribe_loop E i (token # rest) w =
     (let channel = \<lparr>ID = uuid_New E (n_uuid w), ReqType = ''sub'', DataType = token\<rparr>;
          w1 = w\<lparr>n_uuid := n_uuid w + 1\<rparr>
      in case json_Marshal E channel of
           Inl err \<Rightarrow> (Some (Err_marshal token), w1)
         | Inr data \<Rightarrow>
             (case conn w1 of
                None \<Rightarrow> (Some Err_not_connected, w1)
              | Some c \<Rightarrow>
                  (let (failed, w2) = conn_WriteMessage E c data w1 in
                   if failed then (Some (Err_subscribe token), w2)
                   else
                     (let w3 = emit (Log (Log_subscribed token (i + 1) (int (length (tokens w2))))) w2;
                          w4 = (if i < int (length (tokens w3)) - 1 then emit (Sleep 100) w3 else w3)
                      in subscribe_loop E (i + 1) rest w4))))"

definition subscribeAll :: "env \<Rightarrow> world \<Rightarrow> error option \<times> world" where
  "subscribeAll E w = subscribe_loop E 0 (tokens w) w"

text \<open>\<^verbatim>\<open>go ws.listen()\<close>: a new goroutine, at the head of the loop.\<close>

definition go_listen :: "world \<Rightarrow> world" where
  "go_listen w =
     emit (Go_listen (length (goroutines w))) (w\<lparr>goroutines := goroutines w @ [At_loop_head]\<rparr>)"

text \<open>
  \<^verbatim>\<open>
  func (ws *BingXWebSocket) Connect() error {
      conn, _, err := websocket.DefaultDialer.Dial(ws.path, nil)
      if err != nil { return fmt.Errorf("WebSocket connection failed: %w", err) }
      ws.mu.Lock(); ws.conn = conn; ws.mu.Unlock()
      log.Println("WebSocket connected")
      go ws.listen()
      return ws.subscribeAll()
  }
  \<close>
\<close>

definition Connect :: "env \<Rightarrow> world \<Rightarrow> error option \<times> world" where
  "Connect E w =
     (let k = n_dial w;
          w1 = emit (Dial (path w)) (w\<lparr>n_dial := k + 1\<rparr>)
      in if dial_fails E k then (Some Err_connection_failed, w1)
         else
           (let w2 = w1\<lparr>conn := Some k\<rparr>;
                w3 = emit (Log Log_connected) w2;
                w4 = go_listen w3
            in subscribeAll E w4))"

subsection \<open>Reconnect and close\<close>

text \<open>
  \<^verbatim>\<open>
  func (ws *BingXWebSocket) Close() error {
      ws.mu.Lock(); defer ws.mu.Unlock()
      select {
      case <-ws.quit:
      default:
          close(ws.quit)
      }
      if ws.conn != nil {
          err := ws.conn.Close()
          ws.conn = nil
          if err != nil { return fmt.Errorf("error closing WebSocket: %w", err) }
          log.Println("WebSocket closed")
      }
      return nil
  }
  \<close>
\<close>

definition Close :: "env \<Rightarrow> world \<Rightarrow> error option \<times> world" where
  "Close E w =
     (let w1 = (if quit w then w else emit Close_quit (w\<lparr>quit := True\<rparr>))
      in case conn w1 of
           None \<Rightarrow> (None, w1)
         | Some c \<Rightarrow>
             (let w2 = emit (ConnClose c) w1;
                  w3 = w2\<lparr>conn := None\<rparr>
              in if close_fails E c then (Some Err_closing, w3)
                 else (None, emit (Log Log_closed) w3)))"

text \<open>
  \<^verbatim>\<open>
  func (ws *BingXWebSocket) reconnect() {
      log.Println("Attempting WebSocket reconnection...")
      ws.Close()
      time.Sleep(2 * time.Second)
      if err := ws.Connect(); err != nil {
          log.Printf("Reconnection failed: %v", err)
      } else {
          log.Println("Reconnected successfully")
      }
  }
  \<close>
\<close>

definition reconnect :: "env \<Rightarrow> world \<Rightarrow> world" where
  "reconnect E w =
     (let w1 = emit (Log Log_attempting_reconnection) w;
          w2 = snd (Close E w1);
          w3 = emit (Sleep 2000) w2;
          (err, w4) = Connect E w3
      in case err of
           Some e \<Rightarrow> emit (Log Log_reconnection_failed) w4
         | None \<Rightarrow> emit (Log Log_reconnected) w4)"

subsection \<open>Utilities\<close>

text \<open>
  \<^verbatim>\<open>strings.IndexRune(s, r)\<close> for a rune below \<^verbatim>\<open>utf8.RuneSelf\<close> is
  \<^verbatim>\<open>strings.IndexByte\<close>: the index of the first byte equal to it, or -1.
\<close>

fun IndexByte :: "string \<Rightarrow> char \<Rightarrow> int" where
  "IndexByte [] c = - 1"
| "IndexByte (x # xs) c =
     (if x = c then 0
      else (let i = IndexByte xs c in if i < 0 then - 1 else i + 1))"

definition IndexRune :: "string \<Rightarrow> char \<Rightarrow> int" where
  "IndexRune s r = IndexByte s r"

text \<open>
  \<^verbatim>\<open>
  func parseSymbol(s string) string {
      if idx := strings.IndexRune(s, '@'); idx > 0 {
          return s[:idx]
      }
      return s
  }
  \<close>
\<close>

definition parseSymbol :: "string \<Rightarrow> string" where
  "parseSymbol s =
     (let idx = IndexRune s CHR ''@'' in
      if idx > 0 then take (nat idx) s else s)"

subsection \<open>Library: \<^verbatim>\<open>fmt.Sscanf(s, "%f", &f)\<close>\<close>

text \<open>
  The scanner of package \<^verbatim>\<open>fmt\<close> on the format \<^verbatim>\<open>%f\<close>: \<^verbatim>\<open>doScanf\<close> skips leading
  space, \<^verbatim>\<open>scanOne\<close> skips space again, requires input, reads a token with
  \<^verbatim>\<open>floatToken\<close> and converts it with \<^verbatim>\<open>convertFloat\<close>. Whatever follows the token
  is left unread and is no error. (Inputs are shorter than the scanner's width
  limit of \<open>2^30\<close> runes, and \<^verbatim>\<open>int\<close> has 64 bits.)

  \<^verbatim>\<open>isSpace\<close> holds of the runes U+0009..U+000D, U+0020, U+0085, U+00A0, U+1680,
  U+2000..U+200A, U+2028, U+2029, U+202F, U+205F and U+3000; \<open>space_width\<close> is the
  length of the UTF-8 encoding of such a rune at the head of the input, or 0.
\<close>

definition byte :: "char \<Rightarrow> nat" where
  "byte c = of_char c"

definition space_width :: "string \<Rightarrow> nat" where
  "space_width s =
     (case s of
        [] \<Rightarrow> 0
      | c # cs \<Rightarrow>
          if (9 \<le> byte c \<and> byte c \<le> 13) \<or> byte c = 32 then 1
          else if byte c = 0xC2 then
            (case cs of
               d # _ \<Rightarrow> if byte d = 0x85 \<or> byte d = 0xA0 then 2 else 0
             | [] \<Rightarrow> 0)
          else if byte c = 0xE1 then
            (case cs of
               d1 # d2 # _ \<Rightarrow> if byte d1 = 0x9A \<and> byte d2 = 0x80 then 3 else 0
             | _ \<Rightarrow> 0)
          else if byte c = 0xE2 then
            (case cs of
               d1 # d2 # _ \<Rightarrow>
                 if byte d1 = 0x80 \<and>
                    ((0x80 \<le> byte d2 \<and> byte d2 \<le> 0x8A) \<or> byte d2 = 0xA8 \<or>
                     byte d2 = 0xA9 \<or> byte d2 = 0xAF) then 3
                 else if byte d1 = 0x81 \<and> byte d2 = 0x9F then 3
                 else 0
             | _ \<Rightarrow> 0)
          else if byte c = 0xE3 then
            (case cs of
               d1 # d2 # _ \<Rightarrow> if byte d1 = 0x80 \<and> byte d2 = 0x80 then 3 else 0
             | _ \<Rightarrow> 0)
          else 0)"

text \<open>
  \<^verbatim>\<open>SkipSpace\<close> with \<^verbatim>\<open>nlIsSpace = false\<close>: a newline is the error
  "unexpected newline", other space is skipped. The result is the input left.
\<close>

function SkipSpace :: "string \<Rightarrow> error + string" where
  "SkipSpace s =
     (if s = [] then Inr []
      else if byte (hd s) = 10 then Inl Err_scan_newline
      else if space_width s = 0 then Inr s
      else SkipSpace (drop (space_width s) s))"
  by pat_completeness auto
termination
  by (relation "measure length") auto

declare SkipSpace.simps [simp del]

text \<open>
  The scanner's state while it reads a token: the buffer and the input left.
  \<^verbatim>\<open>s.accept(ok)\<close> moves the next rune to the buffer when it is one of \<open>ok\<close>.
\<close>

definition accept :: "string \<Rightarrow> string \<times> string \<Rightarrow> bool \<times> string \<times> string" where
  "accept ok st =
     (case snd st of
        [] \<Rightarrow> (False, st)
      | c # cs \<Rightarrow> if c \<in> set ok then (True, fst st @ [c], cs) else (False, st))"

text \<open>\<^verbatim>\<open>for s.accept(ok) { }\<close>\<close>

fun accept_all :: "string \<Rightarrow> string \<times> string \<Rightarrow> string \<times> string" where
  "accept_all ok (buf, []) = (buf, [])"
| "accept_all ok (buf, c # cs) =
     (if c \<in> set ok then accept_all ok (buf @ [c], cs) else (buf, c # cs))"

definition decimalDigits :: string where "decimalDigits = ''0123456789''"
definition hexadecimalDigits :: string where "hexadecimalDigits = ''0123456789aAbBcCdDeEfF''"
definition sign :: string where "sign = ''+-''"
definition period :: string where "period = ''.''"
definition exponent :: string where "exponent = ''eEpP''"

text \<open>
  \<^verbatim>\<open>
  func (s *ss) floatToken() string {
      s.buf = s.buf[:0]
      if s.accept("nN") && s.accept("aA") && s.accept("nN") { return string(s.buf) }
      s.accept(sign)
      if s.accept("iI") && s.accept("nN") && s.accept("fF") { return string(s.buf) }
      digits := decimalDigits + "_"
      exp := exponent
      if s.accept("0") && s.accept("xX") {
          digits = hexadecimalDigits + "_"
          exp = "pP"
      }
      for s.accept(digits) { }
      if s.accept(period) { for s.accept(digits) { } }
      if s.accept(exp) {
          s.accept(sign)
          for s.accept(decimalDigits + "_") { }
      }
      return string(s.buf)
  }
  \<close>
  The result is the token and the input left after it.
\<close>

definition floatToken :: "string \<Rightarrow> string \<times> string" where
  "floatToken s =
     (let st = ([], s);
          (n1, st) = accept ''nN'' st;
          (n2, st) = (if n1 then accept ''aA'' st else (False, st));
          (n3, st) = (if n2 then accept ''nN'' st else (False, st))
      in if n3 then st
         else
           (let st = snd (accept sign st);
                (i1, st) = accept ''iI'' st;
                (i2, st) = (if i1 then accept ''nN'' st else (False, st));
                (i3, st) = (if i2 then accept ''fF'' st else (False, st))
            in if i3 then st
               else
                 (let (h1, st) = accept ''0'' st;
                      (h2, st) = (if h1 then accept ''xX'' st else (False, st));
                      digits = (if h2 then hexadecimalDigits @ ''_'' else decimalDigits @ ''_'');
                      exp = (if h2 then ''pP'' else exponent);
                      st = accept_all digits st;
                      (dot, st) = accept period st;
                      st = (if dot then accept_all digits st else st);
                      (e, st) = accept exp st
                  in if e then accept_all (decimalDigits @ ''_'') (snd (accept sign st))
                     else st)))"

subsection \<open>Library: \<^verbatim>\<open>strconv.ParseFloat\<close> and \<^verbatim>\<open>strconv.Atoi\<close>\<close>

definition is_digit :: "char \<Rightarrow> bool" where
  "is_digit c = (c \<in> set ''0123456789'')"

definition is_hex_letter :: "char \<Rightarrow> bool" where
  "is_hex_letter c = (c \<in> set ''abcdefABCDEF'')"

text \<open>\<^verbatim>\<open>commonPrefixLenIgnoreCase(s, prefix)\<close>, for a lower-case \<open>prefix\<close>.\<close>

definition to_lower :: "char \<Rightarrow> char" where
  "to_lower c = (if 65 \<le> byte c \<and> byte c \<le> 90 then char_of (byte c + 32) else c)"

fun commonPrefixLenIgnoreCase :: "string \<Rightarrow> string \<Rightarrow> nat" where
  "commonPrefixLenIgnoreCase (c # cs) (p # ps) =
     (if to_lower c = p then Suc (commonPrefixLenIgnoreCase cs ps) else 0)"
| "commonPrefixLenIgnoreCase _ _ = 0"

text \<open>
  \<^verbatim>\<open>special(s)\<close>: the numerals \<open>inf\<close>, \<open>infinity\<close> (with an optional sign) and \<open>nan\<close>,
  in any case; the value and the number of bytes read.
\<close>

definition special_inf :: "bool \<Rightarrow> nat \<Rightarrow> string \<Rightarrow> (float64 \<times> nat) option" where
  "special_inf neg nsign s =
     (let n0 = commonPrefixLenIgnoreCase s ''infinity'';
          n = (if 3 < n0 \<and> n0 < 8 then 3 else n0)
      in if n = 3 \<or> n = 8 then Some (if neg then NegInf else PosInf, nsign + n) else None)"

definition special :: "string \<Rightarrow> (float64 \<times> nat) option" where
  "special s =
     (case s of
        [] \<Rightarrow> None
      | c # cs \<Rightarrow>
          if c = CHR ''+'' \<or> c = CHR ''-'' then special_inf (c = CHR ''-'') 1 cs
          else if c = CHR ''i'' \<or> c = CHR ''I'' then special_inf False 0 s
          else if c = CHR ''n'' \<or> c = CHR ''N'' then
            (if commonPrefixLenIgnoreCase s ''nan'' = 3 then Some (NaN, 3) else None)
          else None)"

text \<open>
  \<^verbatim>\<open>underscoreOK(s)\<close>: an underscore may only stand between digits, or between a base
  prefix and a digit. \<open>saw\<close> is the kind of the last byte seen, as in the source:
  \<open>^\<close> the beginning, \<open>0\<close> a digit or base prefix, \<open>_\<close> an underscore, \<open>!\<close> anything else.
\<close>

fun underscoreOK_loop :: "bool \<Rightarrow> char \<Rightarrow> string \<Rightarrow> bool" where
  "underscoreOK_loop hex saw [] = (saw \<noteq> CHR ''_'')"
| "underscoreOK_loop hex saw (c # cs) =
     (if is_digit c \<or> (hex \<and> is_hex_letter c) then underscoreOK_loop hex CHR ''0'' cs
      else if c = CHR ''_'' then
        (if saw \<noteq> CHR ''0'' then False else underscoreOK_loop hex CHR ''_'' cs)
      else if saw = CHR ''_'' then False
      else underscoreOK_loop hex CHR ''!'' cs)"

definition underscoreOK :: "string \<Rightarrow> bool" where
  "underscoreOK s0 =
     (let s = (case s0 of c # cs \<Rightarrow> if c = CHR ''-'' \<or> c = CHR ''+'' then cs else s0 | [] \<Rightarrow> s0)
      in case s of
           c # d # cs \<Rightarrow>
             if c = CHR ''0'' \<and> to_lower d \<in> set ''box''
             then underscoreOK_loop (to_lower d = CHR ''x'') CHR ''0'' cs
             else underscoreOK_loop False CHR ''^'' s
         | _ \<Rightarrow> underscoreOK_loop False CHR ''^'' s)"

text \<open>
  \<^verbatim>\<open>readFloat(s)\<close>, as far as the syntax goes: whether a numeral is read and how many
  bytes it has. The mantissa loop returns the bytes it consumed, whether it saw a
  digit and whether it saw an underscore.
\<close>

fun mantissa_loop :: "bool \<Rightarrow> bool \<Rightarrow> string \<Rightarrow> nat \<times> bool \<times> bool" where
  "mantissa_loop hex sawdot [] = (0, False, False)"
| "mantissa_loop hex sawdot (c # cs) =
     (if c = CHR ''_'' then
        (let (n, d, u) = mantissa_loop hex sawdot cs in (Suc n, d, True))
      else if c = CHR ''.'' then
        (if sawdot then (0, False, False)
         else (let (n, d, u) = mantissa_loop hex True cs in (Suc n, d, u)))
      else if is_digit c \<or> (hex \<and> is_hex_letter c) then
        (let (n, d, u) = mantissa_loop hex sawdot cs in (Suc n, True, u))
      else (0, False, False))"

definition readFloat :: "string \<Rightarrow> nat option" where
  "readFloat s =
     (case s of
        [] \<Rightarrow> None
      | c0 # _ \<Rightarrow>
          (let i0 = (if c0 = CHR ''+'' \<or> c0 = CHR ''-'' then 1 else 0);
               hex = (i0 + 2 < length s \<and> s ! i0 = CHR ''0'' \<and> to_lower (s ! (i0 + 1)) = CHR ''x'');
               i1 = (if hex then i0 + 2 else i0);
               (n, sawdigits, u1) = mantissa_loop hex False (drop i1 s);
               i2 = i1 + n;
               expChar = (if hex then CHR ''p'' else CHR ''e'')
           in if \<not> sawdigits then None
              else if i2 < length s \<and> to_lower (s ! i2) = expChar then
                (let i3 = i2 + 1 in
                 if i3 \<ge> length s then None
                 else
                   (let i4 = (if s ! i3 = CHR ''+'' \<or> s ! i3 = CHR ''-'' then i3 + 1 else i3) in
                    if i4 \<ge> length s \<or> \<not> is_digit (s ! i4) then None
                    else
                      (let ds = takeWhile (\<lambda>c. is_digit c \<or> c = CHR ''_'') (drop i4 s);
                           i5 = i4 + length ds;
                           u = (u1 \<or> CHR ''_'' \<in> set ds)
                       in if u \<and> \<not> underscoreOK (take i5 s) then None else Some i5)))
              else if hex then None
              else if u1 \<and> \<not> underscoreOK (take i2 s) then None
              else Some i2))"

text \<open>
  \<^verbatim>\<open>strconv.ParseFloat(s, 64)\<close>: the whole of \<open>s\<close> must be one numeral. The value of
  a well-formed numeral (rounding, and the range error of a numeral too large) is
  the environment's \<open>strconv_atof\<close>.
\<close>

definition ParseFloat :: "env \<Rightarrow> string \<Rightarrow> error + float64" where
  "ParseFloat E s =
     (case special s of
        Some (v, n) \<Rightarrow> if n \<noteq> length s then Inl Err_strconv else Inr v
      | None \<Rightarrow>
          (case readFloat s of
             None \<Rightarrow> Inl Err_strconv
           | Some n \<Rightarrow> if n \<noteq> length s then Inl Err_strconv else strconv_atof E s))"

text \<open>
  \<^verbatim>\<open>strconv.Atoi(s)\<close>: an optional sign and decimal digits, within the range of
  a 64-bit \<^verbatim>\<open>int\<close>. (\<open>Err_strconv\<close> stands for every \<^verbatim>\<open>*strconv.NumError\<close>, of
  syntax or of range.)
\<close>

definition digit_val :: "char \<Rightarrow> int" where
  "digit_val c = int (byte c) - 48"

definition Atoi :: "string \<Rightarrow> error + int" where
  "Atoi s0 =
     (let neg = (s0 \<noteq> [] \<and> hd s0 = CHR ''-'');
          s = (if s0 \<noteq> [] \<and> (hd s0 = CHR ''+'' \<or> hd s0 = CHR ''-'') then tl s0 else s0)
      in if s = [] \<or> \<not> list_all is_digit s then Inl Err_strconv
         else
           (let n = foldl (\<lambda>a c. a * 10 + digit_val c) 0 s;
                v = (if neg then - n else n)
            in if v < - (2 ^ 63) \<or> 2 ^ 63 - 1 < v then Inl Err_strconv else Inr v))"

text \<open>
  \<^verbatim>\<open>
  func (s *ss) convertFloat(str string, n int) float64 {
      if p := indexRune(str, 'p'); p >= 0 && !hasX(str) {
          f, err := strconv.ParseFloat(str[:p], n)
          if err != nil { s.error(err) }
          m, err := strconv.Atoi(str[p+1:])
          if err != nil { s.error(err) }
          return math.Ldexp(f, m)
      }
      f, err := strconv.ParseFloat(str, n)
      if err != nil { s.error(err) }
      return f
  }
  \<close>
\<close>

definition hasX :: "string \<Rightarrow> bool" where
  "hasX s = (CHR ''x'' \<in> set s \<or> CHR ''X'' \<in> set s)"

definition convertFloat :: "env \<Rightarrow> string \<Rightarrow> error + float64" where
  "convertFloat E str =
     (let p = IndexByte str CHR ''p'' in
      if p \<ge> 0 \<and> \<not> hasX str then
        (case ParseFloat E (take (nat p) str) of
           Inl err \<Rightarrow> Inl err
         | Inr f \<Rightarrow>
             (case Atoi (drop (nat p + 1) str) of
                Inl err \<Rightarrow> Inl err
              | Inr m \<Rightarrow> Inr (math_Ldexp E f m)))
      else ParseFloat E str)"

definition Sscanf_f :: "env \<Rightarrow> string \<Rightarrow> error + float64" where
  "Sscanf_f E str =
     (case SkipSpace str of
        Inl err \<Rightarrow> Inl err
      | Inr s1 \<Rightarrow>
          (case SkipSpace s1 of
             Inl err \<Rightarrow> Inl err
           | Inr s2 \<Rightarrow>
               if s2 = [] then Inl Err_scan_EOF
               else convertFloat E (fst (floatToken s2))))"

text \<open>
  \<^verbatim>\<open>
  func parsePrice(s string) (float64, error) {
      var f float64
      _, err := fmt.Sscanf(s, "%f", &f)
      return f, err
  }
  \<close>
\<close>

definition parsePrice :: "env \<Rightarrow> string \<Rightarrow> error + float64" where
  "parsePrice E s = Sscanf_f E s"

subsection \<open>Library: the first checks of \<^verbatim>\<open>gzip.NewReader\<close> and \<^verbatim>\<open>json.Unmarshal\<close>\<close>

text \<open>
  \<^verbatim>\<open>
  func decompress(data []byte) ([]byte, error) {
      reader, err := gzip.NewReader(bytes.NewReader(data))
      if err != nil { return nil, err }
      defer reader.Close()
      return io.ReadAll(reader)
  }
  \<close>
  \<^verbatim>\<open>gzip.NewReader\<close> reads the ten bytes of the header and fails unless they begin
  with the magic bytes \<open>1f 8b\<close> and the method \<open>08\<close>. Inflating the stream is the
  environment's \<open>gzip_inflate\<close>.
\<close>

definition decompress :: "env \<Rightarrow> bytes \<Rightarrow> error + bytes" where
  "decompress E data =
     (if length data < 10 then Inl Err_gzip_EOF
      else if take 3 data \<noteq> [CHR 0x1F, CHR 0x8B, CHR 0x08] then Inl Err_gzip_header
      else gzip_inflate E data)"

text \<open>
  \<^verbatim>\<open>json.Unmarshal(data, &market)\<close> first checks that \<open>data\<close> is valid JSON; its
  scanner rejects an input that is empty, or whose first byte after white space
  cannot begin a value. Everything after that is the environment's \<open>json_decode\<close>.
\<close>

definition json_isSpace :: "char \<Rightarrow> bool" where
  "json_isSpace c = (byte c = 32 \<or> byte c = 9 \<or> byte c = 13 \<or> byte c = 10)"

definition json_begins_value :: "char \<Rightarrow> bool" where
  "json_begins_value c = (byte c = 0x22 \<or> c \<in> set ''{[-0123456789tfn'')"

definition json_Unmarshal :: "env \<Rightarrow> bytes \<Rightarrow> error + MarketData" where
  "json_Unmarshal E data =
     (case dropWhile json_isSpace data of
        [] \<Rightarrow> Inl Err_json_syntax
      | c # _ \<Rightarrow> if json_begins_value c then json_decode E data else Inl Err_json_syntax)"

subsection \<open>Message handling\<close>

text \<open>
  \<^verbatim>\<open>
  func (ws *BingXWebSocket) sendPong() {
      ws.mu.RLock(); defer ws.mu.RUnlock()
      if ws.conn != nil {
          _ = ws.conn.WriteMessage(websocket.TextMessage, []byte("Pong"))
      }
  }
  \<close>
\<close>

definition sendPong :: "env \<Rightarrow> world \<Rightarrow> world" where
  "sendPong E w =
     (case conn w of
        Some c \<Rightarrow> snd (conn_WriteMessage E c ''Pong'' w)
      | None \<Rightarrow> w)"

text \<open>
  \<^verbatim>\<open>
  func (ws *BingXWebSocket) dispatch(m MarketData) {
      if m.DataType == "" || m.Data.Price == "" { return }
      symbol := parseSymbol(m.DataType)
      price, err := parsePrice(m.Data.Price)
      if err != nil {
          log.Printf("Invalid price %s: %v", m.Data.Price, err)
          return
      }
      if ws.messageHandler != nil {
          ws.messageHandler(PriceUpdate{Type: "priceUpdate", Symbol: symbol, Price: price})
      }
  }
  \<close>
  The callback is taken to return (a panic in it is not modelled).
\<close>

definition dispatch :: "env \<Rightarrow> MarketData \<Rightarrow> world \<Rightarrow> world" where
  "dispatch E m w =
     (if m_DataType m = [] \<or> m_Data_Price m = [] then w
      else
        (let symbol = parseSymbol (m_DataType m) in
         case parsePrice E (m_Data_Price m) of
           Inl err \<Rightarrow> emit (Log (Log_invalid_price (m_Data_Price m))) w
         | Inr price \<Rightarrow>
             if messageHandler w
             then emit (Handler \<lparr>Type = ''priceUpdate'', Symbol = symbol, Price = price\<rparr>) w
             else w))"

text \<open>
  \<^verbatim>\<open>
  func (ws *BingXWebSocket) handleMessage(msg []byte) {
      data, err := decompress(msg)
      if err != nil { log.Printf("Decompression failed: %v", err); return }
      if bytes.Equal(data, []byte("Ping")) { ws.sendPong(); return }
      var market MarketData
      if err := json.Unmarshal(data, &market); err != nil {
          log.Printf("JSON decode failed: %v", err)
          return
      }
      ws.dispatch(market)
  }
  \<close>
\<close>

definition handleMessage :: "env \<Rightarrow> bytes \<Rightarrow> world \<Rightarrow> world" where
  "handleMessage E msg w =
     (case decompress E msg of
        Inl err \<Rightarrow> emit (Log Log_decompression_failed) w
      | Inr data \<Rightarrow>
          if data = ''Ping'' then sendPong E w
          else
            (case json_Unmarshal E data of
               Inl err \<Rightarrow> emit (Log Log_json_decode_failed) w
             | Inr market \<Rightarrow> dispatch E market (emit (Dispatch market) w)))"

subsection \<open>Message loop\<close>

text \<open>
  \<^verbatim>\<open>
  func (ws *BingXWebSocket) listen() {
      defer func() { if r := recover(); r != nil { log.Printf(...) } }()
      for {
          ws.mu.RLock(); conn := ws.conn; ws.mu.RUnlock()
          if conn == nil { return }
          select {
          case <-ws.quit:
              return
          default:
          }
          _, msg, err := conn.ReadMessage()
          if err != nil {
              log.Printf("WebSocket read error: %v", err)
              ws.reconnect()
              return
          }
          ws.handleMessage(msg)
      }
  }
  \<close>
  The loop blocks in \<^verbatim>\<open>ReadMessage\<close>, so it is split there: \<open>listen_head\<close> runs
  goroutine \<open>g\<close> from the head of the loop to the read, and \<open>listen_read\<close> runs it
  from the return of the read, with the result \<open>r\<close> of the read, to the end of the
  iteration.
\<close>

definition set_pc :: "nat \<Rightarrow> pc \<Rightarrow> world \<Rightarrow> world" where
  "set_pc g p w = w\<lparr>goroutines := (goroutines w)[g := p]\<rparr>"

definition listen_head :: "nat \<Rightarrow> world \<Rightarrow> world" where
  "listen_head g w =
     (case conn w of
        None \<Rightarrow> set_pc g Returned w
      | Some c \<Rightarrow> if quit w then set_pc g Returned w else set_pc g (In_ReadMessage c) w)"

definition listen_read :: "env \<Rightarrow> nat \<Rightarrow> error + bytes \<Rightarrow> world \<Rightarrow> world" where
  "listen_read E g r w =
     (case r of
        Inl err \<Rightarrow> set_pc g Returned (reconnect E (emit (Log Log_read_error) w))
      | Inr msg \<Rightarrow> set_pc g At_loop_head (handleMessage E msg w))"

text \<open>
  A run of the client is a sequence of actions: the application calls \<^verbatim>\<open>Connect\<close>
  or \<^verbatim>\<open>Close\<close>, a goroutine at the head of the loop runs to its read, or the read a
  goroutine is blocked in returns. An action that is not enabled does nothing.
\<close>

datatype action = Call_Connect | Call_Close | Run nat | Read nat "error + bytes"

fun exec :: "env \<Rightarrow> world \<Rightarrow> action \<Rightarrow> world" where
  "exec E w Call_Connect = snd (Connect E w)"
| "exec E w Call_Close = snd (Close E w)"
| "exec E w (Run g) =
     (if g < length (goroutines w) \<and> goroutines w ! g = At_loop_head then listen_head g w else w)"
| "exec E w (Read g r) =
     (if g < length (goroutines w) then
        (case goroutines w ! g of
           In_ReadMessage c \<Rightarrow> listen_read E g r w
         | _ \<Rightarrow> w)
      else w)"

definition run :: "env \<Rightarrow> action list \<Rightarrow> world \<Rightarrow> world" where
  "run E acts w = foldl (exec E) w acts"

subsection \<open>An environment for examples\<close>

text \<open>
  A network on which every dial, write and close succeeds, and library functions
  that agree with the libraries on the inputs used in the examples below: the
  frames are the gzip streams of \<open>Ping\<close>, \<open>Pong\<close>, \<open>hello\<close> and of one trade message,
  and numerals are decimal without sign and exponent.
\<close>

definition frame_Ping :: bytes where
  "frame_Ping = [
      CHR 0x1F, CHR 0x8B, CHR 0x08, CHR 0x00, CHR 0x00, CHR 0x00, CHR 0x00, CHR 0x00,
      CHR 0x02, CHR 0x03, CHR 0x0B, CHR 0xC8, CHR 0xCC, CHR 0x4B, CHR 0x07, CHR 0x00,
      CHR 0xC3, CHR 0x92, CHR 0xE7, CHR 0x85, CHR 0x04, CHR 0x00, CHR 0x00, CHR 0x00]"

definition frame_Pong :: bytes where
  "frame_Pong = [
      CHR 0x1F, CHR 0x8B, CHR 0x08, CHR 0x00, CHR 0x00, CHR 0x00, CHR 0x00, CHR 0x00,
      CHR 0x02, CHR 0x03, CHR 0x0B, CHR 0xC8, CHR 0xCF, CHR 0x4B, CHR 0x07, CHR 0x00,
      CHR 0x71, CHR 0xEE, CHR 0x6A, CHR 0x81, CHR 0x04, CHR 0x00, CHR 0x00, CHR 0x00]"

definition frame_hello :: bytes where
  "frame_hello = [
      CHR 0x1F, CHR 0x8B, CHR 0x08, CHR 0x00, CHR 0x00, CHR 0x00, CHR 0x00, CHR 0x00,
      CHR 0x02, CHR 0x03, CHR 0xCB, CHR 0x48, CHR 0xCD, CHR 0xC9, CHR 0xC9, CHR 0x07,
      CHR 0x00, CHR 0x86, CHR 0xA6, CHR 0x10, CHR 0x36, CHR 0x05, CHR 0x00, CHR 0x00,
      CHR 0x00]"

definition trade_json :: bytes where
  "trade_json =
     ''{'' @ [CHR 0x22] @ ''dataType'' @ [CHR 0x22] @ '':'' @ [CHR 0x22] @ ''BTC-USDT@trade'' @ [CHR 0x22] @
     '','' @ [CHR 0x22] @ ''data'' @ [CHR 0x22] @ '':{'' @ [CHR 0x22] @ ''p'' @ [CHR 0x22] @ '':'' @
     [CHR 0x22] @ ''100.50'' @ [CHR 0x22] @ ''}}''"

definition frame_trade :: bytes where
  "frame_trade = [
      CHR 0x1F, CHR 0x8B, CHR 0x08, CHR 0x00, CHR 0x00, CHR 0x00, CHR 0x00, CHR 0x00,
      CHR 0x02, CHR 0x03, CHR 0xAB, CHR 0x56, CHR 0x4A, CHR 0x49, CHR 0x2C, CHR 0x49,
      CHR 0x0C, CHR 0xA9, CHR 0x2C, CHR 0x48, CHR 0x55, CHR 0xB2, CHR 0x52, CHR 0x72,
      CHR 0x0A, CHR 0x71, CHR 0xD6, CHR 0x0D, CHR 0x0D, CHR 0x76, CHR 0x09, CHR 0x71,
      CHR 0x28, CHR 0x29, CHR 0x4A, CHR 0x4C, CHR 0x49, CHR 0x55, CHR 0xD2, CHR 0x01,
      CHR 0xCB, CHR 0x29, CHR 0x59, CHR 0x55, CHR 0x2B, CHR 0x15, CHR 0x00, CHR 0x25,
      CHR 0x0D, CHR 0x0D, CHR 0x0C, CHR 0xF4, CHR 0x4C, CHR 0x0D, CHR 0x94, CHR 0x6A,
      CHR 0x6B, CHR 0x01, CHR 0x57, CHR 0x27, CHR 0x7D, CHR 0xDB, CHR 0x33, CHR 0x00,
      CHR 0x00, CHR 0x00]"

definition inflate0 :: "bytes \<Rightarrow> error + bytes" where
  "inflate0 data =
     (if data = frame_Ping then Inr ''Ping''
      else if data = frame_Pong then Inr ''Pong''
      else if data = frame_hello then Inr ''hello''
      else if data = frame_trade then Inr trade_json
      else Inl Err_gzip_corrupt)"

definition decode0 :: "bytes \<Rightarrow> error + MarketData" where
  "decode0 data =
     (if data = trade_json then Inr \<lparr>m_DataType = ''BTC-USDT@trade'', m_Data_Price = ''100.50''\<rparr>
      else Inl Err_json_syntax)"

definition quoted :: "string \<Rightarrow> string" where
  "quoted s = [CHR 0x22] @ s @ [CHR 0x22]"

definition marshal0 :: "Channel \<Rightarrow> error + bytes" where
  "marshal0 c =
     Inr (''{'' @ quoted ''id'' @ '':'' @ quoted (ID c) @ '','' @
          quoted ''reqType'' @ '':'' @ quoted (ReqType c) @ '','' @
          quoted ''dataType'' @ '':'' @ quoted (DataType c) @ ''}'')"

definition atof0 :: "string \<Rightarrow> error + float64" where
  "atof0 s =
     (let ip = takeWhile (\<lambda>c. c \<noteq> CHR ''.'') s;
          fp = drop (length ip + 1) s;
          n = foldl (\<lambda>a c. a * 10 + digit_val c) 0 (ip @ fp)
      in Inr (Finite (of_int n / 10 ^ length fp)))"

definition Ldexp0 :: "float64 \<Rightarrow> int \<Rightarrow> float64" where
  "Ldexp0 f m =
     (case f of
        Finite q \<Rightarrow> Finite (if 0 \<le> m then q * 2 ^ nat m else q / 2 ^ nat (- m))
      | _ \<Rightarrow> f)"

definition uuid0 :: "nat \<Rightarrow> string" where
  "uuid0 k = ''uuid-'' @ replicate k CHR ''i''"

definition E0 :: env where
  "E0 = \<lparr>dial_fails = (\<lambda>k. False), write_fails = (\<lambda>k. False), close_fails = (\<lambda>c. False),
          uuid_New = uuid0, json_Marshal = marshal0, gzip_inflate = inflate0,
          json_decode = decode0, strconv_atof = atof0, math_Ldexp = Ldexp0\<rparr>"

definition w0 :: world where
  "w0 = NewBingXWebSocket [''BTC-USDT@trade'', ''ETH-USDT@trade''] True"


subsection \<open>Observing a run\<close>

text \<open>
  The events a step adds to the trace, the frames written among some events, and
  the messages passed to \<^verbatim>\<open>dispatch\<close> among them.
\<close>

definition new_events :: "world \<Rightarrow> world \<Rightarrow> event list" where
  "new_events w w' = drop (length (events w)) (events w')"

fun writes_of :: "event list \<Rightarrow> (conn \<times> bytes) list" where
  "writes_of [] = []"
| "writes_of (WriteMessage c d # es) = (c, d) # writes_of es"
| "writes_of (_ # es) = writes_of es"

fun dispatched :: "event list \<Rightarrow> MarketData list" where
  "dispatched [] = []"
| "dispatched (Dispatch m # es) = m # dispatched es"
| "dispatched (_ # es) = dispatched es"

fun handled :: "event list \<Rightarrow> PriceUpdate list" where
  "handled [] = []"
| "handled (Handler u # es) = u # handled es"
| "handled (_ # es) = handled es"

fun dials :: "event list \<Rightarrow> string list" where
  "dials [] = []"
| "dials (Dial p # es) = p # dials es"
| "dials (_ # es) = dials es"

fun is_Go_listen :: "event \<Rightarrow> bool" where
  "is_Go_listen (Go_listen g) = True"
| "is_Go_listen _ = False"

text \<open>
  The Subscription Protocol in the spec's words: \<open>buildRequests\<close> maps the channels,
  in order, to requests with type \<open>sub\<close>, the channel copied, and a fresh id each
  (the \<open>k\<close>-th and following results of \<^verbatim>\<open>uuid.New\<close>).
\<close>

definition buildRequests :: "env \<Rightarrow> nat \<Rightarrow> string list \<Rightarrow> Channel list" where
  "buildRequests E k channels =
     map (\<lambda>(j, ch). \<lparr>ID = uuid_New E j, ReqType = ''sub'', DataType = ch\<rparr>)
       (enumerate k channels)"

text \<open>
  The trace of a subscribe phase in which nothing fails: per token the request
  written, the log line, and the pause unless the token is the last.
\<close>

fun sub_trace :: "env \<Rightarrow> conn \<Rightarrow> int \<Rightarrow> int \<Rightarrow> nat \<Rightarrow> string list \<Rightarrow> event list" where
  "sub_trace E c n i k [] = []"
| "sub_trace E c n i k (t # ts) =
     [WriteMessage c (projr (json_Marshal E \<lparr>ID = uuid_New E k, ReqType = ''sub'', DataType = t\<rparr>)),
      Log (Log_subscribed t (i + 1) n)] @
     (if i < n - 1 then [Sleep 100] else []) @
     sub_trace E c n (i + 1) (Suc k) ts"

text \<open>
  Three states of the example client: connected, with its goroutine blocked in the
  read; the same after that read has failed; and connected, then closed by the
  application while the goroutine is blocked in the read.
\<close>

definition w_streaming :: world where
  "w_streaming = run E0 [Call_Connect, Run 0] w0"

definition w_failed :: world where
  "w_failed = exec E0 w_streaming (Read 0 (Inl Err_read))"

definition w_closed :: world where
  "w_closed = run E0 [Call_Connect, Run 0, Call_Close] w0"

text \<open>
  A step is silent when it only adds events to the trace, none of them a call of
  the callback. A client is deaf when it is marked as shut down and none of its
  goroutines is blocked in a read.
\<close>

definition silent :: "world \<Rightarrow> world \<Rightarrow> bool" where
  "silent w w' = (\<exists>evs. events w' = events w @ evs \<and> handled evs = [])"

definition deaf :: "world \<Rightarrow> bool" where
  "deaf w = (quit w \<and> list_all (\<lambda>p. p = At_loop_head \<or> p = Returned) (goroutines w))"

text \<open>
  Price texts. A decimal numeral is an optional sign, digits with an optional point
  (at least one digit before or after it), and an optional exponent: \<open>e\<close> or \<open>E\<close>, an
  optional sign and at least one digit. A text \<open>rest\<close> ends the token of the numeral
  \<open>num\<close> when its first byte cannot extend what \<^verbatim>\<open>floatToken\<close> reads: it is no digit,
  underscore, point or exponent letter, and not the \<open>x\<close> of a prefix \<open>0x\<close>.
\<close>

definition strip_sign :: "string \<Rightarrow> string" where
  "strip_sign s =
     (case s of [] \<Rightarrow> [] | c # cs \<Rightarrow> if c = CHR ''+'' \<or> c = CHR ''-'' then cs else s)"

definition decimal_numeral :: "string \<Rightarrow> bool" where
  "decimal_numeral s =
     (let m = strip_sign s;
          ip = takeWhile is_digit m;
          r1 = dropWhile is_digit m;
          fp = (case r1 of [] \<Rightarrow> [] | c # cs \<Rightarrow> if c = CHR ''.'' then takeWhile is_digit cs else []);
          r2 = (case r1 of [] \<Rightarrow> [] | c # cs \<Rightarrow> if c = CHR ''.'' then dropWhile is_digit cs else r1)
      in (ip \<noteq> [] \<or> fp \<noteq> []) \<and>
         (case r2 of
            [] \<Rightarrow> True
          | c # cs \<Rightarrow> c \<in> set ''eE'' \<and> strip_sign cs \<noteq> [] \<and> list_all is_digit (strip_sign cs)))"

definition ends_token :: "string \<Rightarrow> string \<Rightarrow> bool" where
  "ends_token num rest =
     (case rest of
        [] \<Rightarrow> True
      | c # _ \<Rightarrow> c \<notin> set ''0123456789_.eEpP'' \<and> \<not> (strip_sign num = ''0'' \<and> c \<in> set ''xX''))"

section \<open>Properties\<close>

lemma IndexByte_absent: "c \<notin> set s \<Longrightarrow> IndexByte s c = - 1"
  by (induction s) (auto simp: Let_def)

lemma IndexByte_present:
  "c \<in> set s \<Longrightarrow> IndexByte s c = int (length (takeWhile (\<lambda>x. x \<noteq> c) s))"
  by (induction s) (auto simp: Let_def IndexByte_absent)

text \<open>
  C7. The symbol derived from a channel string is the part of the string strictly
  before its first \<open>@\<close> when that \<open>@\<close> is at an index greater than 0; a string
  without \<open>@\<close>, or with \<open>@\<close> as its first byte, is returned unchanged.
\<close>

theorem parseSymbol_first_at:
  "parseSymbol s =
     (if CHR ''@'' \<in> set s \<and> 0 < length (takeWhile (\<lambda>c. c \<noteq> CHR ''@'') s)
      then takeWhile (\<lambda>c. c \<noteq> CHR ''@'') s
      else s)"
proof (cases "CHR ''@'' \<in> set s")
  case True
  then show ?thesis
    by (simp add: parseSymbol_def IndexRune_def IndexByte_present
        takeWhile_eq_take [symmetric] del: length_greater_0_conv)
next
  case False
  then show ?thesis
    by (simp add: parseSymbol_def IndexRune_def IndexByte_absent)
qed

subsection \<open>The subscribe phase\<close>

lemma writes_of_append: "writes_of (xs @ ys) = writes_of xs @ writes_of ys"
  by (induction xs rule: writes_of.induct) auto

lemma writes_of_sub_trace:
  "writes_of (sub_trace E c n i k ts) =
     map (\<lambda>r. (c, projr (json_Marshal E r))) (buildRequests E k ts)"
  by (induction ts arbitrary: i k) (auto simp: buildRequests_def writes_of_append)





lemma subscribe_loop_None:
  assumes "fst (subscribe_loop E i toks w) = None" and "conn w = Some c"
  shows "snd (subscribe_loop E i toks w) =
           w\<lparr>events := events w @ sub_trace E c (int (length (tokens w))) i (n_uuid w) toks,
             n_write := n_write w + length toks,
             n_uuid := n_uuid w + length toks\<rparr>"
  using assms
proof (induction toks arbitrary: w i)
  case Nil
  then show ?case by simp
next
  case (Cons t ts)
  from Cons.prems obtain d where
    d: "json_Marshal E \<lparr>ID = uuid_New E (n_uuid w), ReqType = ''sub'', DataType = t\<rparr> = Inr d"
    by (cases "json_Marshal E \<lparr>ID = uuid_New E (n_uuid w), ReqType = ''sub'', DataType = t\<rparr>")
       (auto simp: Let_def)
  from Cons.prems d have nf: "\<not> write_fails E (n_write w)"
    by (auto simp: Let_def conn_WriteMessage_def split: if_splits)
  let ?w4 = "w\<lparr>n_uuid := Suc (n_uuid w), n_write := Suc (n_write w),
      events := events w @ [WriteMessage c d, Log (Log_subscribed t (i + 1) (int (length (tokens w))))]
        @ (if i < int (length (tokens w)) - 1 then [Sleep 100] else [])\<rparr>"
  have step: "subscribe_loop E i (t # ts) w = subscribe_loop E (i + 1) ts ?w4"
    using Cons.prems(2) d nf
    by (simp add: Let_def conn_WriteMessage_def emit_def)
  have "fst (subscribe_loop E (i + 1) ts ?w4) = None"
    using Cons.prems(1) step by simp
  moreover have "conn ?w4 = Some c"
    using Cons.prems(2) by simp
  ultimately have "snd (subscribe_loop E (i + 1) ts ?w4) =
      ?w4\<lparr>events := events ?w4 @ sub_trace E c (int (length (tokens ?w4))) (i + 1) (n_uuid ?w4) ts,
           n_write := n_write ?w4 + length ts, n_uuid := n_uuid ?w4 + length ts\<rparr>"
    by (rule Cons.IH)
  then show ?case
    unfolding step using d by simp
qed





subsection \<open>Close\<close>

text \<open>
  C8. A second call of \<^verbatim>\<open>Close\<close>, right after a first one, returns no error and
  changes nothing: it adds no event, so it does not close the transport handle
  again, and the client has no connection (and stays marked as shut down).
\<close>

theorem Close_twice:
  "fst (Close E (snd (Close E w))) = None \<and>
   snd (Close E (snd (Close E w))) = snd (Close E w) \<and>
   conn (snd (Close E w)) = None \<and>
   quit (snd (Close E w))"
  by (simp add: Close_def emit_def Let_def split: option.splits)

subsection \<open>Connect\<close>

lemma new_events_append [simp]: "new_events w (w\<lparr>events := events w @ es\<rparr>) = es"
  by (simp add: new_events_def)

text \<open>
  C9, as the code has it. In every successful call of \<^verbatim>\<open>Connect\<close> the transport is
  dialed, then the one read-loop goroutine is started, and only then the subscribe
  phase runs, to completion, on the new connection: the events of the call are the
  dial, the log line, the start of the goroutine, and then the trace of a subscribe
  phase without failure, which writes the requests of all channels.
\<close>

theorem Connect_order:
  assumes "fst (Connect E w) = None"
  shows "new_events w (snd (Connect E w)) =
           [Dial (path w), Log Log_connected, Go_listen (length (goroutines w))] @
           sub_trace E (n_dial w) (int (length (tokens w))) 0 (n_uuid w) (tokens w) \<and>
         writes_of (sub_trace E (n_dial w) (int (length (tokens w))) 0 (n_uuid w) (tokens w)) =
           map (\<lambda>r. (n_dial w, projr (json_Marshal E r))) (buildRequests E (n_uuid w) (tokens w)) \<and>
         goroutines (snd (Connect E w)) = goroutines w @ [At_loop_head] \<and>
         conn (snd (Connect E w)) = Some (n_dial w)"
proof -
  from assms have nd: "\<not> dial_fails E (n_dial w)"
    by (auto simp: Connect_def Let_def emit_def split: if_splits)
  let ?w4 = "w\<lparr>n_dial := Suc (n_dial w), conn := Some (n_dial w),
      goroutines := goroutines w @ [At_loop_head],
      events := events w @ [Dial (path w), Log Log_connected, Go_listen (length (goroutines w))]\<rparr>"
  have C: "Connect E w = subscribe_loop E 0 (tokens w) ?w4"
    using nd by (simp add: Connect_def Let_def emit_def go_listen_def subscribeAll_def)
  have "fst (subscribe_loop E 0 (tokens w) ?w4) = None"
    using assms C by simp
  moreover have "conn ?w4 = Some (n_dial w)" by simp
  ultimately have "snd (subscribe_loop E 0 (tokens w) ?w4) =
      ?w4\<lparr>events := events ?w4 @ sub_trace E (n_dial w) (int (length (tokens ?w4))) 0 (n_uuid ?w4) (tokens w),
          n_write := n_write ?w4 + length (tokens w), n_uuid := n_uuid ?w4 + length (tokens w)\<rparr>"
    by (rule subscribe_loop_None)
  then show ?thesis
    unfolding C by (simp add: new_events_def writes_of_sub_trace)
qed

theorem Connect_order_witness:
  "new_events w0 (snd (Connect E0 w0)) =
     [Dial ''wss://open-api-swap.bingx.com/swap-market'', Log Log_connected, Go_listen 0] @
     sub_trace E0 0 2 0 0 [''BTC-USDT@trade'', ''ETH-USDT@trade''] \<and>
   goroutines (snd (Connect E0 w0)) = [At_loop_head] \<and>
   conn (snd (Connect E0 w0)) = Some 0"
proof -
  have h: "fst (Connect E0 w0) = None"
    by (simp add: Connect_def E0_def w0_def NewBingXWebSocket_def Let_def emit_def go_listen_def
        subscribeAll_def marshal0_def conn_WriteMessage_def)
  have w: "path w0 = ''wss://open-api-swap.bingx.com/swap-market''" "goroutines w0 = []"
    "n_dial w0 = 0" "n_uuid w0 = 0" "tokens w0 = [''BTC-USDT@trade'', ''ETH-USDT@trade'']"
    by (simp_all add: w0_def NewBingXWebSocket_def)
  show ?thesis
    using Connect_order [OF h] unfolding w by simp
qed

text \<open>
  C9 as stated fails: in this successful call the goroutine is started when no
  subscribe request has been written yet, and both requests are written after it.
\<close>

theorem Connect_listen_first_counterexample:
  "fst (Connect E0 w0) = None \<and>
   writes_of (takeWhile (\<lambda>e. \<not> is_Go_listen e) (events (snd (Connect E0 w0)))) = [] \<and>
   length (writes_of (dropWhile (\<lambda>e. \<not> is_Go_listen e) (events (snd (Connect E0 w0))))) = 2"
  by (simp add: Connect_def E0_def w0_def NewBingXWebSocket_def Let_def emit_def go_listen_def subscribeAll_def
       marshal0_def conn_WriteMessage_def)

subsection \<open>Heartbeat\<close>

text \<open>
  C6. For a frame that decompresses to \<open>Ping\<close>, with a connection in place, the only
  thing \<^verbatim>\<open>handleMessage\<close> does is to write one text frame \<open>Pong\<close> on the current
  connection: nothing is passed to \<^verbatim>\<open>dispatch\<close> and the callback is not called.
\<close>

theorem Ping_answered_with_one_Pong:
  assumes "decompress E msg = Inr ''Ping''" and "conn w = Some c"
  shows "new_events w (handleMessage E msg w) = [WriteMessage c ''Pong''] \<and>
         dispatched (new_events w (handleMessage E msg w)) = [] \<and>
         handled (new_events w (handleMessage E msg w)) = []"
  using assms
  by (simp add: handleMessage_def sendPong_def conn_WriteMessage_def emit_def new_events_def)

theorem Ping_answered_witness:
  "new_events (w0\<lparr>conn := Some 0\<rparr>) (handleMessage E0 frame_Ping (w0\<lparr>conn := Some 0\<rparr>)) =
     [WriteMessage 0 ''Pong'']"
proof -
  have h1: "decompress E0 frame_Ping = Inr ''Ping''"
    by (simp add: decompress_def frame_Ping_def E0_def inflate0_def)
  have h2: "conn (w0\<lparr>conn := Some 0\<rparr>) = Some 0" by simp
  show ?thesis
    using Ping_answered_with_one_Pong [OF h1 h2] by simp
qed

subsection \<open>Evaluating the examples\<close>

lemmas scan_defs = parsePrice_def Sscanf_f_def SkipSpace.simps space_width_def byte_def
  floatToken_def accept_def sign_def period_def exponent_def decimalDigits_def
  hexadecimalDigits_def convertFloat_def hasX_def ParseFloat_def special_def special_inf_def
  readFloat_def is_digit_def is_hex_letter_def to_lower_def underscoreOK_def Atoi_def digit_val_def Let_def

lemmas E0_defs = E0_def inflate0_def decode0_def marshal0_def atof0_def Ldexp0_def uuid0_def
  quoted_def frame_Ping_def frame_Pong_def frame_hello_def frame_trade_def trade_json_def

subsection \<open>Frames\<close>

lemma dispatch_events:
  "\<exists>evs. dispatch E m w = w\<lparr>events := events w @ evs\<rparr> \<and> dispatched evs = [] \<and> writes_of evs = []"
  by (cases "parsePrice E (m_Data_Price m)")
     (auto simp: dispatch_def emit_def Let_def intro: exI [of _ "[]"])

lemma dispatched_new_events_dispatch:
  "dispatched (new_events w (dispatch E m (emit (Dispatch m) w))) = [m]"
proof -
  obtain evs where "dispatch E m (emit (Dispatch m) w) =
      (emit (Dispatch m) w)\<lparr>events := events (emit (Dispatch m) w) @ evs\<rparr>" and "dispatched evs = []"
    using dispatch_events by blast
  then show ?thesis
    by (simp add: new_events_def emit_def)
qed

lemma json_Unmarshal_Pong: "json_Unmarshal E ''Pong'' = Inl Err_json_syntax"
  by (simp add: json_Unmarshal_def json_isSpace_def json_begins_value_def byte_def)

text \<open>
  C3, as the code has it. The check for a control frame is made on the decompressed
  payload only: a frame that does not decompress (the raw bytes \<open>Ping\<close>, for one)
  is dropped with a diagnostic and nothing else happens. Exactly the payload \<open>Ping\<close>
  is a control frame: all that happens is the write of \<open>Pong\<close> on the connection, if
  there is one, and no other payload leads to any write. Every other decompressed
  payload goes to the JSON decoder: when it does not decode, all that happens is the
  diagnostic of a failed decoding (so it is with \<open>Pong\<close>, which is not JSON); when it
  decodes, \<^verbatim>\<open>handleMessage\<close> does what \<^verbatim>\<open>dispatch\<close> does on the decoded message.
\<close>

theorem handleMessage_forwarding:
  "((\<exists>err. decompress E msg = Inl err) \<longrightarrow>
      handleMessage E msg w = emit (Log Log_decompression_failed) w \<and>
      new_events w (handleMessage E msg w) = [Log Log_decompression_failed]) \<and>
   (decompress E msg = Inr ''Ping'' \<longrightarrow>
      new_events w (handleMessage E msg w) =
        (case conn w of Some c \<Rightarrow> [WriteMessage c ''Pong''] | None \<Rightarrow> []) \<and>
      writes_of (new_events w (handleMessage E msg w)) =
        (case conn w of Some c \<Rightarrow> [(c, ''Pong'')] | None \<Rightarrow> [])) \<and>
   (\<forall>data. decompress E msg = Inr data \<and> data \<noteq> ''Ping'' \<longrightarrow>
      writes_of (new_events w (handleMessage E msg w)) = []) \<and>
   (\<forall>data. decompress E msg = Inr data \<and> data \<noteq> ''Ping'' \<and>
      (\<exists>err. json_Unmarshal E data = Inl err) \<longrightarrow>
      handleMessage E msg w = emit (Log Log_json_decode_failed) w \<and>
      new_events w (handleMessage E msg w) = [Log Log_json_decode_failed]) \<and>
   (\<forall>data m. decompress E msg = Inr data \<and> data \<noteq> ''Ping'' \<and>
      json_Unmarshal E data = Inr m \<longrightarrow>
      handleMessage E msg w = dispatch E m (emit (Dispatch m) w)) \<and>
   dispatched (new_events w (handleMessage E msg w)) =
     (case decompress E msg of
        Inl err \<Rightarrow> []
      | Inr data \<Rightarrow>
          if data = ''Ping'' then []
          else (case json_Unmarshal E data of Inl err \<Rightarrow> [] | Inr m \<Rightarrow> [m])) \<and>
   (decompress E msg = Inr ''Pong'' \<longrightarrow>
      new_events w (handleMessage E msg w) = [Log Log_json_decode_failed]) \<and>
   new_events w (handleMessage E ''Ping'' w) = [Log Log_decompression_failed]"
proof (intro conjI impI allI)
  assume "\<exists>err. decompress E msg = Inl err"
  then show "handleMessage E msg w = emit (Log Log_decompression_failed) w"
    and "new_events w (handleMessage E msg w) = [Log Log_decompression_failed]"
    by (auto simp: handleMessage_def emit_def new_events_def)
next
  assume "decompress E msg = Inr ''Ping''"
  then show "new_events w (handleMessage E msg w) =
        (case conn w of Some c \<Rightarrow> [WriteMessage c ''Pong''] | None \<Rightarrow> [])"
    and "writes_of (new_events w (handleMessage E msg w)) =
        (case conn w of Some c \<Rightarrow> [(c, ''Pong'')] | None \<Rightarrow> [])"
    by (simp_all add: handleMessage_def sendPong_def conn_WriteMessage_def emit_def new_events_def
        split: option.splits)
next
  fix data
  assume a: "decompress E msg = Inr data \<and> data \<noteq> ''Ping''"
  show "writes_of (new_events w (handleMessage E msg w)) = []"
  proof (cases "json_Unmarshal E data")
    case (Inl err)
    then show ?thesis
      using a by (simp add: handleMessage_def emit_def new_events_def)
  next
    case (Inr m)
    obtain evs where "dispatch E m (emit (Dispatch m) w) =
        (emit (Dispatch m) w)\<lparr>events := events (emit (Dispatch m) w) @ evs\<rparr>"
      and "writes_of evs = []"
      using dispatch_events by blast
    then show ?thesis
      using a Inr by (simp add: handleMessage_def emit_def new_events_def)
  qed
next
  fix data
  assume "decompress E msg = Inr data \<and> data \<noteq> ''Ping'' \<and>
      (\<exists>err. json_Unmarshal E data = Inl err)"
  then show "handleMessage E msg w = emit (Log Log_json_decode_failed) w"
    and "new_events w (handleMessage E msg w) = [Log Log_json_decode_failed]"
    by (auto simp: handleMessage_def emit_def new_events_def)
next
  fix data m
  assume "decompress E msg = Inr data \<and> data \<noteq> ''Ping'' \<and> json_Unmarshal E data = Inr m"
  then show "handleMessage E msg w = dispatch E m (emit (Dispatch m) w)"
    by (simp add: handleMessage_def)
next
  show "dispatched (new_events w (handleMessage E msg w)) =
     (case decompress E msg of
        Inl err \<Rightarrow> []
      | Inr data \<Rightarrow>
          if data = ''Ping'' then []
          else (case json_Unmarshal E data of Inl err \<Rightarrow> [] | Inr m \<Rightarrow> [m]))"
    by (auto simp: handleMessage_def sendPong_def conn_WriteMessage_def emit_def new_events_def
        dispatched_new_events_dispatch [unfolded new_events_def emit_def]
        split: sum.splits option.splits)
next
  assume "decompress E msg = Inr ''Pong''"
  then show "new_events w (handleMessage E msg w) = [Log Log_json_decode_failed]"
    by (simp add: handleMessage_def json_Unmarshal_Pong emit_def new_events_def)
next
  show "new_events w (handleMessage E ''Ping'' w) = [Log Log_decompression_failed]"
    by (simp add: handleMessage_def decompress_def emit_def new_events_def)
qed

theorem handleMessage_forwarding_witness:
  "decompress E0 frame_Pong = Inr ''Pong'' \<and>
   new_events w0 (handleMessage E0 frame_Pong w0) = [Log Log_json_decode_failed] \<and>
   dispatched (new_events w0 (handleMessage E0 frame_trade w0)) =
     [\<lparr>m_DataType = ''BTC-USDT@trade'', m_Data_Price = ''100.50''\<rparr>] \<and>
   writes_of (new_events w0 (handleMessage E0 frame_trade w0)) = []"
proof -
  have h: "decompress E0 frame_Pong = Inr ''Pong''"
    by (simp add: decompress_def E0_defs)
  have t: "decompress E0 frame_trade = Inr trade_json"
    by (simp add: decompress_def E0_def inflate0_def frame_trade_def frame_Ping_def
        frame_Pong_def frame_hello_def)
  have j: "json_Unmarshal E0 trade_json =
      Inr \<lparr>m_DataType = ''BTC-USDT@trade'', m_Data_Price = ''100.50''\<rparr>"
    by (simp add: json_Unmarshal_def json_isSpace_def json_begins_value_def byte_def E0_def
        decode0_def trade_json_def)
  have n: "trade_json \<noteq> ''Ping''"
    by (simp add: trade_json_def)
  note P = handleMessage_forwarding [where E = E0 and msg = frame_Pong and w = w0]
  note T = handleMessage_forwarding [where E = E0 and msg = frame_trade and w = w0]
  have p: "new_events w0 (handleMessage E0 frame_Pong w0) = [Log Log_json_decode_failed]"
    using P h by blast
  have "dispatched (new_events w0 (handleMessage E0 frame_trade w0)) =
      (case decompress E0 frame_trade of Inl err \<Rightarrow> []
       | Inr data \<Rightarrow> if data = ''Ping'' then []
           else (case json_Unmarshal E0 data of Inl err \<Rightarrow> [] | Inr m \<Rightarrow> [m]))"
    using T by blast
  then have d: "dispatched (new_events w0 (handleMessage E0 frame_trade w0)) =
      [\<lparr>m_DataType = ''BTC-USDT@trade'', m_Data_Price = ''100.50''\<rparr>]"
    by (simp add: t j n)
  have "decompress E0 frame_trade = Inr trade_json \<and> trade_json \<noteq> ''Ping''"
    using t n by simp
  then have r: "writes_of (new_events w0 (handleMessage E0 frame_trade w0)) = []"
    using T by blast
  show ?thesis
    using h p d r by blast
qed

text \<open>
  C3 as stated fails: the payload \<open>hello\<close> decompresses, is neither \<open>Ping\<close> nor \<open>Pong\<close>,
  and is not forwarded to \<^verbatim>\<open>dispatch\<close>.
\<close>

theorem handleMessage_hello_counterexample:
  "decompress E0 frame_hello = Inr ''hello'' \<and>
   dispatched (new_events w0 (handleMessage E0 frame_hello w0)) = [] \<and>
   new_events w0 (handleMessage E0 frame_hello w0) = [Log Log_json_decode_failed]"
proof -
  have h: "decompress E0 frame_hello = Inr ''hello''"
    by (simp add: decompress_def E0_defs)
  have j: "json_Unmarshal E0 ''hello'' = Inl Err_json_syntax"
    by (simp add: json_Unmarshal_def json_isSpace_def json_begins_value_def byte_def)
  show ?thesis
    by (simp add: h j handleMessage_def emit_def new_events_def)
qed

subsection \<open>Dispatch\<close>

text \<open>
  C5. With a callback registered, \<^verbatim>\<open>dispatch\<close> calls it if and only if the channel and
  the price text are not empty and \<^verbatim>\<open>parsePrice\<close> accepts the price text. With an
  empty channel or price text it does nothing at all; with a price text that
  \<^verbatim>\<open>parsePrice\<close> rejects, all it does is log the invalid price. In every case it
  returns nothing to its caller and changes nothing of the client but the trace.
\<close>

theorem dispatch_callback_iff:
  assumes "messageHandler w"
  shows "(handled (new_events w (dispatch E m w)) \<noteq> [] \<longleftrightarrow>
            m_DataType m \<noteq> [] \<and> m_Data_Price m \<noteq> [] \<and>
            (\<exists>v. parsePrice E (m_Data_Price m) = Inr v)) \<and>
         (m_DataType m = [] \<or> m_Data_Price m = [] \<longrightarrow> dispatch E m w = w) \<and>
         (\<forall>err. m_DataType m \<noteq> [] \<and> m_Data_Price m \<noteq> [] \<and>
            parsePrice E (m_Data_Price m) = Inl err \<longrightarrow>
            new_events w (dispatch E m w) = [Log (Log_invalid_price (m_Data_Price m))]) \<and>
         (\<forall>v. m_DataType m \<noteq> [] \<and> m_Data_Price m \<noteq> [] \<and>
            parsePrice E (m_Data_Price m) = Inr v \<longrightarrow>
            new_events w (dispatch E m w) =
              [Handler \<lparr>Type = ''priceUpdate'', Symbol = parseSymbol (m_DataType m), Price = v\<rparr>]) \<and>
         (\<exists>evs. dispatch E m w = w\<lparr>events := events w @ evs\<rparr>)"
  using assms
  by (cases "parsePrice E (m_Data_Price m)")
     (auto simp: dispatch_def emit_def new_events_def Let_def intro: exI [of _ "[]"])

theorem dispatch_callback_witness:
  "new_events w0 (dispatch E0 \<lparr>m_DataType = ''BTC-USDT@trade'', m_Data_Price = ''abc''\<rparr> w0) =
     [Log (Log_invalid_price ''abc'')] \<and>
   new_events w0 (dispatch E0 \<lparr>m_DataType = ''BTC-USDT@trade'', m_Data_Price = ''100.50''\<rparr> w0) =
     [Handler \<lparr>Type = ''priceUpdate'', Symbol = ''BTC-USDT'', Price = Finite (201 / 2)\<rparr>] \<and>
   dispatch E0 \<lparr>m_DataType = ''BTC-USDT@trade'', m_Data_Price = []\<rparr> w0 = w0"
proof -
  have h: "messageHandler w0"
    by (simp add: w0_def NewBingXWebSocket_def)
  have p1: "parsePrice E0 ''abc'' = Inl Err_strconv"
    by (simp add: scan_defs)
  have p2: "parsePrice E0 ''100.50'' = Inr (Finite (201 / 2))"
    by (simp add: scan_defs E0_def atof0_def)
  have s: "parseSymbol ''BTC-USDT@trade'' = ''BTC-USDT''"
    by (simp add: parseSymbol_def IndexRune_def Let_def)
  show ?thesis
    using dispatch_callback_iff [OF h, of E0 "\<lparr>m_DataType = ''BTC-USDT@trade'', m_Data_Price = ''abc''\<rparr>"]
      dispatch_callback_iff [OF h, of E0 "\<lparr>m_DataType = ''BTC-USDT@trade'', m_Data_Price = ''100.50''\<rparr>"]
      dispatch_callback_iff [OF h, of E0 "\<lparr>m_DataType = ''BTC-USDT@trade'', m_Data_Price = []\<rparr>"]
      p1 p2 s
    by simp
qed

subsection \<open>Shutdown and reconnection\<close>

lemmas client_defs = Connect_def Close_def reconnect_def subscribeAll_def go_listen_def emit_def
  conn_WriteMessage_def listen_head_def listen_read_def set_pc_def handleMessage_def dispatch_def
  sendPong_def run_def new_events_def NewBingXWebSocket_def w0_def Let_def

lemma handled_append: "handled (xs @ ys) = handled xs @ handled ys"
  by (induction xs rule: handled.induct) auto

lemma silent_refl: "events w' = events w \<Longrightarrow> silent w w'"
  by (simp add: silent_def)

lemma silent_trans: "silent w w' \<Longrightarrow> silent w' w'' \<Longrightarrow> silent w w''"
  by (auto simp: silent_def handled_append)

lemma silent_add: "handled evs = [] \<Longrightarrow> events w' = events w @ evs \<Longrightarrow> silent w w'"
  by (auto simp: silent_def)

lemma silent_new_events: "silent w w' \<Longrightarrow> handled (new_events w w') = []"
  by (auto simp: silent_def new_events_def)

lemma subscribe_loop_keeps:
  "quit (snd (subscribe_loop E i toks w)) = quit w \<and>
   goroutines (snd (subscribe_loop E i toks w)) = goroutines w \<and>
   silent w (snd (subscribe_loop E i toks w))"
proof (induction toks arbitrary: w i)
  case Nil
  show ?case by (simp add: silent_refl)
next
  case (Cons t ts)
  let ?ch = "\<lparr>ID = uuid_New E (n_uuid w), ReqType = ''sub'', DataType = t\<rparr>"
  show ?case
  proof (cases "json_Marshal E ?ch")
    case (Inl e)
    then show ?thesis by (simp add: Let_def silent_refl)
  next
    case d: (Inr d)
    show ?thesis
    proof (cases "conn w")
      case None
      then show ?thesis using d by (simp add: Let_def silent_refl)
    next
      case (Some c)
      show ?thesis
      proof (cases "write_fails E (n_write w)")
        case True
        then show ?thesis
          using d Some
          by (simp add: Let_def conn_WriteMessage_def emit_def silent_add [of "[WriteMessage c d]"])
      next
        case False
        let ?evs = "[WriteMessage c d, Log (Log_subscribed t (i + 1) (int (length (tokens w))))]
            @ (if i < int (length (tokens w)) - 1 then [Sleep 100] else [])"
        let ?w4 = "w\<lparr>n_uuid := Suc (n_uuid w), n_write := Suc (n_write w),
            events := events w @ ?evs\<rparr>"
        have step: "subscribe_loop E i (t # ts) w = subscribe_loop E (i + 1) ts ?w4"
          using d Some False by (simp add: Let_def conn_WriteMessage_def emit_def)
        have "silent w ?w4"
          by (rule silent_add [of ?evs]) simp_all
        then show ?thesis
          unfolding step using Cons.IH [of "i + 1" ?w4] by (auto intro: silent_trans)
      qed
    qed
  qed
qed

lemma Connect_keeps:
  "quit (snd (Connect E w)) = quit w \<and>
   silent w (snd (Connect E w)) \<and>
   (goroutines (snd (Connect E w)) = goroutines w \<or>
    goroutines (snd (Connect E w)) = goroutines w @ [At_loop_head])"
proof (cases "dial_fails E (n_dial w)")
  case True
  then show ?thesis
    by (simp add: Connect_def Let_def emit_def silent_add [of "[Dial (path w)]"])
next
  case False
  let ?evs = "[Dial (path w), Log Log_connected, Go_listen (length (goroutines w))]"
  let ?w4 = "w\<lparr>n_dial := Suc (n_dial w), conn := Some (n_dial w),
      goroutines := goroutines w @ [At_loop_head], events := events w @ ?evs\<rparr>"
  have C: "Connect E w = subscribe_loop E 0 (tokens w) ?w4"
    using False by (simp add: Connect_def Let_def emit_def go_listen_def subscribeAll_def)
  have "silent w ?w4"
    by (rule silent_add [of ?evs]) simp_all
  then show ?thesis
    unfolding C using subscribe_loop_keeps [of E 0 "tokens w" ?w4] by (auto intro: silent_trans)
qed

lemma Close_keeps:
  "quit (snd (Close E w)) \<and> silent w (snd (Close E w)) \<and>
   goroutines (snd (Close E w)) = goroutines w"
proof -
  have "handled [Close_quit] = []" "handled [ConnClose c] = []" "handled [ConnClose c, Log Log_closed] = []"
    "handled [Close_quit, ConnClose c] = []" "handled [Close_quit, ConnClose c, Log Log_closed] = []" for c
    by simp_all
  then show ?thesis
    by (auto simp: Close_def Let_def emit_def silent_def split: option.splits)
qed

lemma reconnect_keeps:
  "quit (reconnect E w) \<and> silent w (reconnect E w) \<and>
   (goroutines (reconnect E w) = goroutines w \<or>
    goroutines (reconnect E w) = goroutines w @ [At_loop_head])"
proof -
  let ?w1 = "emit (Log Log_attempting_reconnection) w"
  let ?w2 = "snd (Close E ?w1)"
  let ?w3 = "emit (Sleep 2000) ?w2"
  let ?w4 = "snd (Connect E ?w3)"
  have s1: "silent w ?w1"
    by (rule silent_add [of "[Log Log_attempting_reconnection]"]) (simp_all add: emit_def)
  have s2: "silent ?w1 ?w2" "quit ?w2" "goroutines ?w2 = goroutines w"
    using Close_keeps [of E ?w1] by (simp_all add: emit_def)
  have s3: "silent ?w2 ?w3" "quit ?w3" "goroutines ?w3 = goroutines w"
    using s2 by (auto simp: emit_def intro: silent_add [of "[Sleep 2000]"])
  have s4: "silent ?w3 ?w4" "quit ?w4"
    "goroutines ?w4 = goroutines w \<or> goroutines ?w4 = goroutines w @ [At_loop_head]"
    using Connect_keeps [of E ?w3] s3 by auto
  have s: "silent w ?w4"
    using s1 s2(1) s3(1) s4(1) by (blast intro: silent_trans)
  have e: "silent ?w4 (emit (Log l) ?w4)" for l
    by (rule silent_add [of "[Log l]"]) (simp_all add: emit_def)
  have r: "reconnect E w = emit (Log Log_reconnection_failed) ?w4 \<or>
           reconnect E w = emit (Log Log_reconnected) ?w4"
    by (simp add: reconnect_def Let_def case_prod_unfold split: option.splits)
  from r show ?thesis
  proof
    assume "reconnect E w = emit (Log Log_reconnection_failed) ?w4"
    then show ?thesis
      using s4 s e [of Log_reconnection_failed] by (auto simp: emit_def intro: silent_trans)
  next
    assume "reconnect E w = emit (Log Log_reconnected) ?w4"
    then show ?thesis
      using s4 s e [of Log_reconnected] by (auto simp: emit_def intro: silent_trans)
  qed
qed

lemma dispatch_quit: "quit (dispatch E m w) = quit w"
  by (simp add: dispatch_def emit_def Let_def split: sum.splits)

lemma handleMessage_quit: "quit (handleMessage E msg w) = quit w"
  by (simp add: handleMessage_def sendPong_def conn_WriteMessage_def emit_def dispatch_quit
      split: sum.splits option.splits)

lemma exec_quit: "quit w \<Longrightarrow> quit (exec E w a)"
proof (cases a)
  case Call_Connect
  assume "quit w" then show ?thesis using Call_Connect by (simp add: Connect_keeps)
next
  case Call_Close
  show ?thesis using Call_Close by (simp add: Close_keeps)
next
  case (Run g)
  assume "quit w" then show ?thesis
    using Run by (simp add: listen_head_def set_pc_def split: option.splits)
next
  case (Read g r)
  assume "quit w" then show ?thesis
    using Read
    by (cases r)
       (simp_all add: listen_read_def set_pc_def reconnect_keeps handleMessage_quit split: pc.splits)
qed

lemma shutdown_permanent: "quit w \<Longrightarrow> quit (run E acts w)"
  unfolding run_def by (induction acts arbitrary: w) (simp_all add: exec_quit)

lemma deaf_exec:
  assumes "deaf w"
  shows "deaf (exec E w a) \<and> silent w (exec E w a)"
proof (cases a)
  case Call_Connect
  then show ?thesis
    using assms Connect_keeps [of E w] by (auto simp: deaf_def)
next
  case Call_Close
  then show ?thesis
    using assms by (simp add: deaf_def Close_keeps)
next
  case (Run g)
  have "list_all (\<lambda>p. p = At_loop_head \<or> p = Returned) ((goroutines w)[g := Returned])"
    using assms set_update_subset_insert [of "goroutines w" g Returned]
    by (auto simp: deaf_def list_all_iff)
  then show ?thesis
    using assms Run
    by (simp add: deaf_def listen_head_def set_pc_def silent_refl split: option.splits)
next
  case (Read g r)
  have "\<And>c. g < length (goroutines w) \<Longrightarrow> goroutines w ! g \<noteq> In_ReadMessage c"
    using assms by (auto simp: deaf_def list_all_length)
  then have "exec E w (Read g r) = w"
    by (auto split: pc.splits)
  then show ?thesis
    using Read assms by (simp add: silent_refl)
qed

lemma deaf_run:
  "deaf w \<Longrightarrow> deaf (run E acts w) \<and> silent w (run E acts w)"
  unfolding run_def
proof (induction acts arbitrary: w)
  case Nil
  then show ?case by (simp add: silent_refl)
next
  case (Cons a acts)
  from Cons.prems have "deaf (exec E w a)" "silent w (exec E w a)"
    using deaf_exec by blast+
  with Cons.IH [of "exec E w a"] show ?case by (auto intro: silent_trans)
qed

text \<open>After a read error in the only goroutine that is reading, the client is deaf.\<close>

lemma read_error_deaf:
  assumes "g < length (goroutines w)" and "goroutines w ! g = In_ReadMessage c"
    and "list_all (\<lambda>p. p = At_loop_head \<or> p = Returned) ((goroutines w)[g := Returned])"
  shows "deaf (exec E w (Read g (Inl err)))"
proof -
  let ?w' = "reconnect E (emit (Log Log_read_error) w)"
  have e: "exec E w (Read g (Inl err)) = set_pc g Returned ?w'"
    using assms(1,2) by (simp add: listen_read_def)
  have g: "goroutines ?w' = goroutines w \<or> goroutines ?w' = goroutines w @ [At_loop_head]"
    using reconnect_keeps [of E "emit (Log Log_read_error) w"] by (simp add: emit_def)
  have "list_all (\<lambda>p. p = At_loop_head \<or> p = Returned) ((goroutines ?w')[g := Returned])"
    using g assms(1,3) by (auto simp: list_update_append)
  then show ?thesis
    unfolding e using reconnect_keeps [of E "emit (Log Log_read_error) w"]
    by (simp add: deaf_def set_pc_def)
qed

lemma dials_append: "dials (xs @ ys) = dials xs @ dials ys"
  by (induction xs rule: dials.induct) auto

lemma subscribe_loop_dials:
  "dials (events (snd (subscribe_loop E i toks w))) = dials (events w) \<and>
   path (snd (subscribe_loop E i toks w)) = path w"
proof (induction toks arbitrary: w i)
  case Nil
  show ?case by simp
next
  case (Cons t ts)
  show ?case
    by (simp add: Let_def conn_WriteMessage_def emit_def dials_append Cons.IH
        split: sum.splits option.splits)
qed

lemma Connect_dials: "dials (events (snd (Connect E w))) = dials (events w) @ [path w]"
  by (simp add: Connect_def Let_def subscribeAll_def go_listen_def emit_def dials_append
      subscribe_loop_dials)

lemma Close_dials:
  "dials (events (snd (Close E w))) = dials (events w) \<and> path (snd (Close E w)) = path w"
  by (simp add: Close_def Let_def emit_def dials_append split: option.splits)

lemma reconnect_dials: "dials (events (reconnect E w)) = dials (events w) @ [path w]"
  by (simp add: reconnect_def Let_def case_prod_unfold emit_def dials_append Connect_dials
      Close_dials split: option.splits)

text \<open>
  Whenever the read a goroutine is blocked in returns an error, the client dials
  once more, whether or not it has been shut down.
\<close>

lemma read_error_redials:
  assumes "g < length (goroutines w)" and "goroutines w ! g = In_ReadMessage c"
  shows "dials (events (exec E w (Read g (Inl err)))) = dials (events w) @ [path w]"
  using assms
  by (simp add: listen_read_def set_pc_def reconnect_dials emit_def dials_append)

text \<open>
  After a read error in the only goroutine that is reading, no run calls the
  callback again, whatever the network does.
\<close>

lemma read_error_ends_dispatch:
  assumes "g < length (goroutines w)" and "goroutines w ! g = In_ReadMessage c"
    and "list_all (\<lambda>p. p = At_loop_head \<or> p = Returned) ((goroutines w)[g := Returned])"
  shows "handled (new_events (exec E w (Read g (Inl err)))
           (run E acts (exec E w (Read g (Inl err))))) = []"
  using read_error_deaf [OF assms] deaf_run silent_new_events by blast

lemma w_streaming_eval:
  "w_streaming = w0\<lparr>conn := Some 0, goroutines := [In_ReadMessage 0], n_dial := 1, n_write := 2,
     n_uuid := 2, events := events w_streaming\<rparr>"
  by (simp add: w_streaming_def client_defs E0_def marshal0_def)

text \<open>
  C1, on the code. The mark set by \<^verbatim>\<open>Close\<close> is permanent (\<open>shutdown_permanent\<close>), but
  a read error leads to a new dial in every state (\<open>read_error_redials\<close>), so a
  reconnect attempt still follows the mark: the client is connected, its goroutine is
  blocked in the read, and the application calls \<^verbatim>\<open>Close\<close>. When the read on the
  closed connection then returns its error, the goroutine dials again and writes
  both subscribe requests on the new connection, which stays in place.
\<close>

theorem reconnect_after_Close:
  "quit w_closed \<and> conn w_closed = None \<and> goroutines w_closed = [In_ReadMessage 0] \<and>
   dials (new_events w_closed (exec E0 w_closed (Read 0 (Inl Err_read)))) =
     [''wss://open-api-swap.bingx.com/swap-market''] \<and>
   map fst (writes_of (new_events w_closed (exec E0 w_closed (Read 0 (Inl Err_read))))) = [1, 1] \<and>
   conn (exec E0 w_closed (Read 0 (Inl Err_read))) = Some 1"
  by (simp add: w_closed_def client_defs E0_def marshal0_def)

text \<open>
  C2, on the code. Before the read failure a trade frame reaches the callback.
  After it (with \<^verbatim>\<open>Close\<close> never called by the application) the client has closed
  the connection, dialed again and written both subscribe requests on the new
  connection; but \<^verbatim>\<open>reconnect\<close> has closed \<open>quit\<close> on the way, so the new goroutine
  returns at its first check, and no run from there ever calls the callback again.
\<close>

theorem no_dispatch_after_reconnect:
  "\<not> quit w_streaming \<and> goroutines w_streaming = [In_ReadMessage 0] \<and>
   handled (new_events w_streaming (exec E0 w_streaming (Read 0 (Inr frame_trade)))) =
     [\<lparr>Type = ''priceUpdate'', Symbol = ''BTC-USDT'', Price = Finite (201 / 2)\<rparr>] \<and>
   dials (new_events w_streaming w_failed) = [''wss://open-api-swap.bingx.com/swap-market''] \<and>
   map fst (writes_of (new_events w_streaming w_failed)) = [1, 1] \<and>
   conn w_failed = Some 1 \<and> quit w_failed \<and>
   goroutines w_failed = [Returned, At_loop_head] \<and>
   goroutines (exec E0 w_failed (Run 1)) = [Returned, Returned] \<and>
   (\<forall>acts. handled (new_events w_failed (run E0 acts w_failed)) = [])"
proof -
  have a: "\<not> quit w_streaming \<and> goroutines w_streaming = [In_ReadMessage 0]"
    by (simp add: w_streaming_def client_defs E0_def marshal0_def)
  have t: "decompress E0 frame_trade = Inr trade_json"
    by (simp add: decompress_def E0_def inflate0_def frame_trade_def frame_Ping_def
        frame_Pong_def frame_hello_def)
  have j: "json_Unmarshal E0 trade_json =
      Inr \<lparr>m_DataType = ''BTC-USDT@trade'', m_Data_Price = ''100.50''\<rparr>"
    by (simp add: json_Unmarshal_def json_isSpace_def json_begins_value_def byte_def E0_def
        decode0_def trade_json_def)
  have n: "trade_json \<noteq> ''Ping''"
    by (simp add: trade_json_def)
  have p: "parsePrice E0 ''100.50'' = Inr (Finite (201 / 2))"
    by (simp add: scan_defs E0_def atof0_def)
  have s: "parseSymbol ''BTC-USDT@trade'' = ''BTC-USDT''"
    by (simp add: parseSymbol_def IndexRune_def Let_def)
  have b: "handled (new_events w_streaming (exec E0 w_streaming (Read 0 (Inr frame_trade)))) =
     [\<lparr>Type = ''priceUpdate'', Symbol = ''BTC-USDT'', Price = Finite (201 / 2)\<rparr>]"
    by (subst (2) w_streaming_eval)
       (simp add: a listen_read_def handleMessage_def t j n dispatch_def p s emit_def set_pc_def
          new_events_def w0_def NewBingXWebSocket_def)
  have c: "dials (new_events w_streaming w_failed) = [''wss://open-api-swap.bingx.com/swap-market''] \<and>
   map fst (writes_of (new_events w_streaming w_failed)) = [1, 1] \<and>
   conn w_failed = Some 1 \<and> quit w_failed \<and>
   goroutines w_failed = [Returned, At_loop_head] \<and>
   goroutines (exec E0 w_failed (Run 1)) = [Returned, Returned]"
    by (simp add: w_failed_def w_streaming_def client_defs E0_def marshal0_def)
  from c have "deaf w_failed"
    by (simp add: deaf_def)
  then have "\<forall>acts. handled (new_events w_failed (run E0 acts w_failed)) = []"
    using deaf_run silent_new_events by blast
  with a b c show ?thesis by blast
qed

subsection \<open>Price texts\<close>

lemma accept_no: "s = [] \<or> hd s \<notin> set ok \<Longrightarrow> accept ok (buf, s) = (False, buf, s)"
  by (cases s) (auto simp: accept_def)

lemma accept_yes: "c \<in> set ok \<Longrightarrow> accept ok (buf, c # s) = (True, buf @ [c], s)"
  by (simp add: accept_def)

lemma accept_all_run:
  "set ds \<subseteq> set ok \<Longrightarrow> r = [] \<or> hd r \<notin> set ok \<Longrightarrow>
   accept_all ok (buf, ds @ r) = (buf @ ds, r)"
proof (induction ds arbitrary: buf)
  case Nil
  then show ?case by (cases r) auto
next
  case (Cons d ds)
  then show ?case by simp
qed

lemma is_digit_set: "is_digit c \<longleftrightarrow> c \<in> set decimalDigits"
  by (simp add: is_digit_def decimalDigits_def)

lemma digits_subset: "list_all is_digit ds \<Longrightarrow> set ds \<subseteq> set (decimalDigits @ ''_'')"
  by (auto simp: list_all_iff is_digit_set)

lemma floatToken_numeral:
  assumes sg: "sg = [] \<or> sg = ''+'' \<or> sg = ''-''"
    and ip: "list_all is_digit ip"
    and dot: "dot = [] \<or> (\<exists>fp. dot = CHR ''.'' # fp \<and> list_all is_digit fp)"
    and dig: "ip \<noteq> [] \<or> dot \<noteq> []"
    and ex: "ex = [] \<or> (\<exists>c sg2 ds. ex = c # sg2 @ ds \<and> c \<in> set ''eE'' \<and>
               (sg2 = [] \<or> sg2 = ''+'' \<or> sg2 = ''-'') \<and> ds \<noteq> [] \<and> list_all is_digit ds)"
    and rest: "rest = [] \<or> (hd rest \<notin> set ''0123456789_.eEpP'' \<and>
               \<not> (ip = ''0'' \<and> dot = [] \<and> ex = [] \<and> hd rest \<in> set ''xX''))"
  shows "floatToken (sg @ ip @ dot @ ex @ rest) = (sg @ ip @ dot @ ex, rest)"
proof -
  let ?D = "decimalDigits @ ''_''"
  define m where "m = ip @ dot @ ex"
  define X where "X = sg @ m @ rest"
  define z where "z = (hd m = CHR ''0'')"
  define st0 where "st0 = (if z then (sg @ ''0'', tl m @ rest) else (sg, m @ rest))"
  define st7 where "st7 = (if dot \<noteq> [] then (sg @ ip @ ''.'', tl dot @ ex @ rest)
                           else (sg @ ip, dot @ ex @ rest))"
  define st9 where "st9 = (if ex \<noteq> [] then ((sg @ ip @ dot) @ [hd ex], tl ex @ rest)
                           else (sg @ ip @ dot, ex @ rest))"
  have dg: "\<And>c. is_digit c \<Longrightarrow> c \<in> set ''0123456789''"
    by (simp add: is_digit_def)
  have hm: "m \<noteq> []" "is_digit (hd m) \<or> hd m = CHR ''.''"
    using ip dot dig by (cases ip; auto simp: m_def)+
  have hm': "hd m \<in> set ''0123456789.''"
    using hm(2) by (auto simp: is_digit_def)
  have hX: "X \<noteq> []" "hd X \<in> set ''0123456789.+-''"
    using sg hm hm' by (auto simp: X_def)
  have F1: "accept ''nN'' ([], X) = (False, [], X)"
    using hX by (intro accept_no) auto
  have F2: "accept sign ([], X) = (sg \<noteq> [], sg, m @ rest)"
  proof (cases "sg = []")
    case True
    then show ?thesis
      using hm hm' by (simp add: X_def sign_def) (intro accept_no, auto)
  next
    case False
    then show ?thesis
      using sg by (auto simp: X_def sign_def accept_def)
  qed
  have F3: "accept ''iI'' (sg, m @ rest) = (False, sg, m @ rest)"
    using hm hm' by (intro accept_no) auto
  have F4: "accept ''0'' (sg, m @ rest) = (z, st0)"
    using hm by (cases m) (auto simp: accept_def z_def st0_def)
  have F5: "(if z then accept ''xX'' st0 else (False, st0)) = (False, st0)"
  proof (cases z)
    case False
    then show ?thesis by simp
  next
    case True
    then have "ip \<noteq> []" "hd ip = CHR ''0''"
      using dot dig by (cases ip; auto simp: z_def m_def)+
    then obtain ip' where ip': "ip = CHR ''0'' # ip'"
      by (cases ip) auto
    have "tl m @ rest = [] \<or> hd (tl m @ rest) \<notin> set ''xX''"
    proof (cases ip')
      case (Cons a as)
      then have "is_digit a" using ip ip' by simp
      then show ?thesis using Cons ip' by (auto simp: m_def is_digit_def)
    next
      case Nil
      show ?thesis
      proof (cases "dot = []")
        case False
        then show ?thesis using dot Nil ip' by (auto simp: m_def)
      next
        case d: True
        show ?thesis
        proof (cases "ex = []")
          case False
          then show ?thesis using ex Nil ip' d by (auto simp: m_def)
        next
          case True
          then show ?thesis using rest Nil ip' d by (auto simp: m_def)
        qed
      qed
    qed
    then have "accept ''xX'' (sg @ ''0'', tl m @ rest) = (False, sg @ ''0'', tl m @ rest)"
      by (rule accept_no)
    then show ?thesis
      using True by (simp add: st0_def)
  qed
  have rD: "rest = [] \<or> hd rest \<notin> set ?D"
    using rest by (auto simp: decimalDigits_def)
  have exD: "ex @ rest = [] \<or> hd (ex @ rest) \<notin> set ?D"
    using ex rD by (auto simp: decimalDigits_def)
  have stop6: "dot @ ex @ rest = [] \<or> hd (dot @ ex @ rest) \<notin> set ?D"
    using dot exD by (auto simp: decimalDigits_def)
  have ipD: "set ip \<subseteq> set ?D"
    using ip by (rule digits_subset)
  have F6: "accept_all ?D st0 = (sg @ ip, dot @ ex @ rest)"
  proof (cases z)
    case False
    have "accept_all ?D (sg, ip @ (dot @ ex @ rest)) = (sg @ ip, dot @ ex @ rest)"
      using ipD stop6 by (rule accept_all_run)
    then show ?thesis
      using False by (simp add: st0_def m_def)
  next
    case True
    then have "ip \<noteq> []" "hd ip = CHR ''0''"
      using dot dig by (cases ip; auto simp: z_def m_def)+
    then obtain ip' where ip': "ip = CHR ''0'' # ip'"
      by (cases ip) auto
    have "set ip' \<subseteq> set ?D"
      using ipD ip' by auto
    then have "accept_all ?D (sg @ ''0'', ip' @ (dot @ ex @ rest)) = ((sg @ ''0'') @ ip', dot @ ex @ rest)"
      using stop6 by (rule accept_all_run)
    then show ?thesis
      using True ip' by (simp add: st0_def m_def)
  qed
  have F7: "accept period (sg @ ip, dot @ ex @ rest) = (dot \<noteq> [], st7)"
  proof (cases "dot = []")
    case True
    have "ex @ rest = [] \<or> hd (ex @ rest) \<notin> set period"
      using ex rest by (auto simp: period_def)
    then have "accept period (sg @ ip, ex @ rest) = (False, sg @ ip, ex @ rest)"
      by (rule accept_no)
    then show ?thesis
      using True by (simp add: st7_def)
  next
    case False
    then show ?thesis
      using dot by (auto simp: st7_def accept_def period_def)
  qed
  have F8: "(if dot \<noteq> [] then accept_all ?D st7 else st7) = (sg @ ip @ dot, ex @ rest)"
  proof (cases "dot = []")
    case True
    then show ?thesis by (simp add: st7_def)
  next
    case False
    then obtain fp where fp: "dot = CHR ''.'' # fp" "list_all is_digit fp"
      using dot by auto
    have "accept_all ?D (sg @ ip @ ''.'', fp @ (ex @ rest)) = ((sg @ ip @ ''.'') @ fp, ex @ rest)"
      using digits_subset [OF fp(2)] exD by (rule accept_all_run)
    then show ?thesis
      using False fp by (simp add: st7_def)
  qed
  have F9: "accept exponent (sg @ ip @ dot, ex @ rest) = (ex \<noteq> [], st9)"
  proof (cases "ex = []")
    case True
    have "rest = [] \<or> hd rest \<notin> set exponent"
      using rest by (auto simp: exponent_def)
    then have "accept exponent (sg @ ip @ dot, rest) = (False, sg @ ip @ dot, rest)"
      by (rule accept_no)
    then show ?thesis
      using True by (simp add: st9_def)
  next
    case False
    then show ?thesis
      using ex by (auto simp: st9_def accept_def exponent_def)
  qed
  have F10: "(if ex \<noteq> [] then accept_all ?D (snd (accept sign st9)) else st9) =
      (sg @ ip @ dot @ ex, rest)"
  proof (cases "ex = []")
    case True
    then show ?thesis by (simp add: st9_def)
  next
    case False
    then obtain c sg2 ds where e: "ex = c # sg2 @ ds" "c \<in> set ''eE''"
        "sg2 = [] \<or> sg2 = ''+'' \<or> sg2 = ''-''" "ds \<noteq> []" "list_all is_digit ds"
      using ex by auto
    let ?b = "sg @ ip @ dot @ [c]"
    have hd_ds: "hd ds \<in> set ''0123456789''"
      using e(4,5) by (cases ds) (auto simp: is_digit_def)
    have s: "snd (accept sign (?b, sg2 @ ds @ rest)) = (?b @ sg2, ds @ rest)"
    proof (cases "sg2 = []")
      case True
      have "ds @ rest = [] \<or> hd (ds @ rest) \<notin> set sign"
        using e(4) hd_ds by (auto simp: sign_def)
      then have "accept sign (?b, ds @ rest) = (False, ?b, ds @ rest)"
        by (rule accept_no)
      then show ?thesis using True by simp
    next
      case False
      then show ?thesis
        using e(3) by (auto simp: accept_def sign_def)
    qed
    have "accept_all ?D (?b @ sg2, ds @ rest) = ((?b @ sg2) @ ds, rest)"
      using digits_subset [OF e(5)] rD by (rule accept_all_run)
    then show ?thesis
      using False e(1) s by (simp add: st9_def)
  qed
  have "floatToken X = (sg @ ip @ dot @ ex, rest)"
    unfolding floatToken_def Let_def
    by (simp only: F1 F2 F3 F4 F5 F6 F7 F8 F9 F10 prod.case if_False snd_conv)
  then show ?thesis
    by (simp add: X_def m_def)
qed

lemma mantissa_loop_digits:
  "list_all is_digit ds \<Longrightarrow>
   mantissa_loop False sd (ds @ r) =
     (case mantissa_loop False sd r of (n, dg, u) \<Rightarrow> (length ds + n, dg \<or> ds \<noteq> [], u))"
proof (induction ds)
  case Nil
  then show ?case by simp
next
  case (Cons a ds)
  then have "is_digit a" "a \<noteq> CHR ''_''" "a \<noteq> CHR ''.''"
    by (auto simp: is_digit_def)
  then show ?case
    using Cons by (simp add: case_prod_unfold)
qed

lemma to_lower_digit: "is_digit a \<Longrightarrow> to_lower a \<noteq> CHR ''x''"
  by (auto simp: is_digit_def to_lower_def byte_def)

lemma to_lower_E: "to_lower CHR ''E'' = CHR ''e''"
  by code_simp

lemma to_lower_e: "to_lower CHR ''e'' = CHR ''e''"
  by (simp add: to_lower_def byte_def)

lemma to_lower_point: "to_lower CHR ''.'' = CHR ''.''"
  by (simp add: to_lower_def byte_def)

lemma mantissa_loop_stop:
  "r = [] \<or> (\<not> is_digit (hd r) \<and> hd r \<noteq> CHR ''_'' \<and> hd r \<noteq> CHR ''.'') \<Longrightarrow>
   mantissa_loop False sd r = (0, False, False)"
  by (cases r) auto

lemma mantissa_loop_numeral:
  assumes ip: "list_all is_digit ip"
    and dot: "dot = [] \<or> (\<exists>fp. dot = CHR ''.'' # fp \<and> list_all is_digit fp)"
    and r: "r = [] \<or> (\<not> is_digit (hd r) \<and> hd r \<noteq> CHR ''_'' \<and> hd r \<noteq> CHR ''.'')"
  shows "mantissa_loop False False (ip @ dot @ r) =
           (length ip + length dot, ip \<noteq> [] \<or> (dot \<noteq> [] \<and> tl dot \<noteq> []), False)"
proof -
  have t: "mantissa_loop False False (dot @ r) = (length dot, dot \<noteq> [] \<and> tl dot \<noteq> [], False)"
  proof (cases "dot = []")
    case True
    then show ?thesis using mantissa_loop_stop [OF r] by simp
  next
    case False
    then obtain fp where fp: "dot = CHR ''.'' # fp" "list_all is_digit fp"
      using dot by auto
    have "mantissa_loop False True (fp @ r) =
        (case mantissa_loop False True r of (n, dg, u) \<Rightarrow> (length fp + n, dg \<or> fp \<noteq> [], u))"
      using fp(2) by (rule mantissa_loop_digits)
    then show ?thesis
      using fp mantissa_loop_stop [OF r, of True] by simp
  qed
  have "mantissa_loop False False (ip @ (dot @ r)) =
      (case mantissa_loop False False (dot @ r) of (n, dg, u) \<Rightarrow> (length ip + n, dg \<or> ip \<noteq> [], u))"
    using ip by (rule mantissa_loop_digits)
  then show ?thesis
    by (auto simp: t)
qed


lemma readFloat_numeral:
  assumes sg: "sg = [] \<or> sg = ''+'' \<or> sg = ''-''"
    and ip: "list_all is_digit ip"
    and dot: "dot = [] \<or> (\<exists>fp. dot = CHR ''.'' # fp \<and> list_all is_digit fp)"
    and dig: "ip \<noteq> [] \<or> (dot \<noteq> [] \<and> tl dot \<noteq> [])"
    and ex: "ex = [] \<or> (\<exists>c sg2 ds. ex = c # sg2 @ ds \<and> c \<in> set ''eE'' \<and>
               (sg2 = [] \<or> sg2 = ''+'' \<or> sg2 = ''-'') \<and> ds \<noteq> [] \<and> list_all is_digit ds)"
  shows "readFloat (sg @ ip @ dot @ ex) = Some (length (sg @ ip @ dot @ ex))"
proof -
  define m where "m = ip @ dot @ ex"
  define s where "s = sg @ m"
  define nm where "nm = length ip + length dot"
  have hm: "m \<noteq> []" "is_digit (hd m) \<or> hd m = CHR ''.''"
    using ip dot dig by (cases ip; auto simp: m_def)+
  have hm': "hd m \<noteq> CHR ''+''" "hd m \<noteq> CHR ''-''"
    using hm(2) by (auto simp: is_digit_def)
  have ne: "(s = []) = False"
    using hm by (simp add: s_def)
  have R_i0: "(if hd s = CHR ''+'' \<or> hd s = CHR ''-'' then 1 else 0) = length sg"
    using sg hm hm' by (auto simp: s_def)
  have R_hex: "(length sg + 2 < length s \<and> s ! length sg = CHR ''0'' \<and>
                to_lower (s ! (length sg + 1)) = CHR ''x'') = False"
  proof -
    have "to_lower (m ! 1) \<noteq> CHR ''x''" if "2 < length m" "m ! 0 = CHR ''0''"
    proof -
      from that(2) hm have "ip \<noteq> []"
        using dot dig by (cases ip) (auto simp: m_def)
      then obtain a ip' where ip': "ip = a # ip'" by (cases ip) auto
      show ?thesis
      proof (cases ip')
        case (Cons b bs)
        then have "is_digit b" using ip ip' by simp
        then show ?thesis using Cons ip' by (simp add: m_def to_lower_digit)
      next
        case Nil
        show ?thesis
        proof (cases "dot = []")
          case False
          then show ?thesis using dot Nil ip' by (auto simp: m_def to_lower_point)
        next
          case True
          then have "ex \<noteq> []" using that(1) Nil ip' by (auto simp: m_def)
          then show ?thesis using ex Nil ip' True by (auto simp: m_def to_lower_e to_lower_E)
        qed
      qed
    qed
    then show ?thesis
      by (auto simp: s_def nth_append)
  qed
  have exstop: "ex = [] \<or> (\<not> is_digit (hd ex) \<and> hd ex \<noteq> CHR ''_'' \<and> hd ex \<noteq> CHR ''.'')"
    using ex by (auto simp: is_digit_def)
  have R_m: "mantissa_loop False False (drop (length sg) s) = (nm, True, False)"
    using mantissa_loop_numeral [OF ip dot exstop] dig by (simp add: s_def m_def nm_def)
  have len: "length s = length sg + nm + length ex"
    by (simp add: s_def m_def nm_def)
  have at_ex: "s ! (length sg + nm + k) = ex ! k" for k
    by (simp add: s_def m_def nm_def nth_append)
  have drop_ex: "drop (length sg + nm + k) s = drop k ex" for k
    by (simp add: s_def m_def nm_def)
  have R_e: "(length sg + nm < length s \<and> to_lower (s ! (length sg + nm)) = CHR ''e'') = (ex \<noteq> [])"
    using ex at_ex [of 0] by (auto simp: len to_lower_e to_lower_E)
  show ?thesis
  proof (cases "ex = []")
    case True
    have fin: "length sg + nm = length s"
      using True by (simp add: len)
    have "readFloat s = Some (length s)"
      unfolding readFloat_def Let_def list.case_eq_if
      by (simp only: ne R_i0 R_hex R_m R_e True prod.case if_False if_True simp_thms)
         (simp add: fin)
    then show ?thesis by (simp add: s_def m_def)
  next
    case False
    then obtain c sg2 ds where e: "ex = c # sg2 @ ds" "c \<in> set ''eE''"
        "sg2 = [] \<or> sg2 = ''+'' \<or> sg2 = ''-''" "ds \<noteq> []" "list_all is_digit ds"
      using ex by auto
    define i4 where "i4 = length sg + nm + 1 + length sg2"
    have hd_ds: "is_digit (hd ds)" "hd ds \<noteq> CHR ''+''" "hd ds \<noteq> CHR ''-''"
      using e(4,5) by (cases ds; auto simp: is_digit_def)+
    have E1: "(length s \<le> length sg + nm + 1) = False"
      using e(1,4) by (simp add: len)
    have at1: "s ! (length sg + nm + 1) = hd (sg2 @ ds)"
      using at_ex [of 1] e(1,4) by (simp add: hd_conv_nth)
    have E2: "(if s ! (length sg + nm + 1) = CHR ''+'' \<or> s ! (length sg + nm + 1) = CHR ''-''
               then length sg + nm + 1 + 1 else length sg + nm + 1) = i4"
      unfolding at1 using e(3,4) hd_ds by (auto simp: i4_def)
    have at4: "s ! i4 = hd ds"
      using at_ex [of "1 + length sg2"] e(1,4) by (simp add: i4_def hd_conv_nth nth_append add.assoc)
    have E3: "(length s \<le> i4 \<or> \<not> is_digit (s ! i4)) = False"
      unfolding at4 using e(1,4) hd_ds by (simp add: len i4_def)
    have dr: "drop i4 s = ds"
      using drop_ex [of "1 + length sg2"] e(1) by (simp add: i4_def add.assoc)
    have E4: "takeWhile (\<lambda>c. is_digit c \<or> c = CHR ''_'') (drop i4 s) = ds"
      unfolding dr using e(5) by (auto simp: list_all_iff intro: takeWhile_eq_all_conv [THEN iffD2])
    have E5: "i4 + length ds = length s"
      using e(1) by (simp add: i4_def len)
    have E6: "(CHR ''_'' \<in> set ds) = False"
      using e(5) by (auto simp: list_all_iff is_digit_def)
    have "readFloat s = Some (length s)"
      unfolding readFloat_def Let_def list.case_eq_if
      by (simp only: ne R_i0 R_hex R_m R_e False E1 E2 E3 E4 E5 E6 prod.case if_False if_True
          simp_thms)
    then show ?thesis by (simp add: s_def m_def)
  qed
qed

lemma strip_signE:
  obtains sg where "s = sg @ strip_sign s" "sg = [] \<or> sg = ''+'' \<or> sg = ''-''"
proof (cases s)
  case Nil
  then show ?thesis using that [of "[]"] by (simp add: strip_sign_def)
next
  case (Cons c cs)
  show ?thesis
  proof (cases "c = CHR ''+'' \<or> c = CHR ''-''")
    case True
    then show ?thesis using that [of "[c]"] Cons by (auto simp: strip_sign_def)
  next
    case False
    then show ?thesis using that [of "[]"] Cons by (simp add: strip_sign_def)
  qed
qed

lemma digits_takeWhile: "list_all is_digit (takeWhile is_digit s)"
  by (induction s) auto

lemma decimal_numeralE:
  assumes "decimal_numeral num"
  obtains sg ip dot ex where "num = sg @ ip @ dot @ ex"
    "sg = [] \<or> sg = ''+'' \<or> sg = ''-''"
    "list_all is_digit ip"
    "dot = [] \<or> (\<exists>fp. dot = CHR ''.'' # fp \<and> list_all is_digit fp)"
    "ip \<noteq> [] \<or> (dot \<noteq> [] \<and> tl dot \<noteq> [])"
    "ex = [] \<or> (\<exists>c sg2 ds. ex = c # sg2 @ ds \<and> c \<in> set ''eE'' \<and>
       (sg2 = [] \<or> sg2 = ''+'' \<or> sg2 = ''-'') \<and> ds \<noteq> [] \<and> list_all is_digit ds)"
    "strip_sign num = ip @ dot @ ex"
proof -
  define m where "m = strip_sign num"
  define ip where "ip = takeWhile is_digit m"
  define r1 where "r1 = dropWhile is_digit m"
  define dot where "dot = (case r1 of [] \<Rightarrow> [] | c # cs \<Rightarrow>
      if c = CHR ''.'' then c # takeWhile is_digit cs else [])"
  define ex where "ex = (case r1 of [] \<Rightarrow> [] | c # cs \<Rightarrow>
      if c = CHR ''.'' then dropWhile is_digit cs else r1)"
  obtain sg where sg: "num = sg @ m" "sg = [] \<or> sg = ''+'' \<or> sg = ''-''"
    unfolding m_def by (rule strip_signE)
  have m: "m = ip @ r1"
    by (simp add: ip_def r1_def)
  have r1: "r1 = dot @ ex"
    by (cases r1) (auto simp: dot_def ex_def)
  have ip: "list_all is_digit ip"
    by (simp add: ip_def digits_takeWhile)
  have dot: "dot = [] \<or> (\<exists>fp. dot = CHR ''.'' # fp \<and> list_all is_digit fp)"
    by (cases r1) (auto simp: dot_def digits_takeWhile)
  from assms have dig: "ip \<noteq> [] \<or> (dot \<noteq> [] \<and> tl dot \<noteq> [])"
    unfolding decimal_numeral_def Let_def m_def [symmetric] ip_def [symmetric] r1_def [symmetric]
    by (cases r1) (auto simp: dot_def)
  from assms have e: "case ex of [] \<Rightarrow> True
      | c # cs \<Rightarrow> c \<in> set ''eE'' \<and> strip_sign cs \<noteq> [] \<and> list_all is_digit (strip_sign cs)"
    unfolding decimal_numeral_def Let_def m_def [symmetric] ip_def [symmetric] r1_def [symmetric]
      ex_def by simp
  have ex: "ex = [] \<or> (\<exists>c sg2 ds. ex = c # sg2 @ ds \<and> c \<in> set ''eE'' \<and>
       (sg2 = [] \<or> sg2 = ''+'' \<or> sg2 = ''-'') \<and> ds \<noteq> [] \<and> list_all is_digit ds)"
  proof (cases ex)
    case Nil
    then show ?thesis by simp
  next
    case (Cons c cs)
    obtain sg2 where "cs = sg2 @ strip_sign cs" "sg2 = [] \<or> sg2 = ''+'' \<or> sg2 = ''-''"
      by (rule strip_signE)
    then show ?thesis
      using e Cons by auto
  qed
  have n: "num = sg @ ip @ dot @ ex"
    using sg(1) m r1 by simp
  have s: "strip_sign num = ip @ dot @ ex"
    unfolding m_def [symmetric] using m r1 by simp
  show ?thesis
    by (rule that [OF n sg(2) ip dot dig ex s])
qed

lemma special_numeral:
  assumes sg: "sg = [] \<or> sg = ''+'' \<or> sg = ''-''"
    and m: "m \<noteq> []" "is_digit (hd m) \<or> hd m = CHR ''.''"
  shows "special (sg @ m) = None"
proof -
  obtain a as where a: "m = a # as" using m(1) by (cases m) auto
  have la: "to_lower a \<noteq> CHR ''i''"
    using m(2) a by (auto simp: is_digit_def to_lower_def byte_def)
  have na: "a \<noteq> CHR ''+''" "a \<noteq> CHR ''-''" "a \<noteq> CHR ''i''" "a \<noteq> CHR ''I''"
    "a \<noteq> CHR ''n''" "a \<noteq> CHR ''N''"
    using m(2) a by (auto simp: is_digit_def)
  have inf: "special_inf neg k (a # as) = None" for neg k
    using la by (simp add: special_inf_def)
  show ?thesis
    using sg na inf by (auto simp: special_def a)
qed

lemma ParseFloat_numeral:
  assumes sg: "sg = [] \<or> sg = ''+'' \<or> sg = ''-''"
    and ip: "list_all is_digit ip"
    and dot: "dot = [] \<or> (\<exists>fp. dot = CHR ''.'' # fp \<and> list_all is_digit fp)"
    and dig: "ip \<noteq> [] \<or> (dot \<noteq> [] \<and> tl dot \<noteq> [])"
    and ex: "ex = [] \<or> (\<exists>c sg2 ds. ex = c # sg2 @ ds \<and> c \<in> set ''eE'' \<and>
               (sg2 = [] \<or> sg2 = ''+'' \<or> sg2 = ''-'') \<and> ds \<noteq> [] \<and> list_all is_digit ds)"
  shows "ParseFloat E (sg @ ip @ dot @ ex) = strconv_atof E (sg @ ip @ dot @ ex)"
proof -
  have hm: "ip @ dot @ ex \<noteq> []" "is_digit (hd (ip @ dot @ ex)) \<or> hd (ip @ dot @ ex) = CHR ''.''"
    using ip dot dig by (cases ip; auto)+
  have sp: "special (sg @ ip @ dot @ ex) = None"
    using special_numeral [OF sg hm] .
  show ?thesis
    unfolding ParseFloat_def sp readFloat_numeral [OF assms] by simp
qed

lemma SkipSpace_numeral_start:
  "c \<in> set ''0123456789.+-'' \<Longrightarrow> SkipSpace (c # s) = Inr (c # s)"
  by (subst SkipSpace.simps) (auto simp: space_width_def byte_def)

lemma not_digit_p: "\<not> is_digit CHR ''p''"
  by (simp add: is_digit_def)

lemma no_p_in_digits: "list_all is_digit ds \<Longrightarrow> CHR ''p'' \<notin> set ds"
  using not_digit_p by (induction ds) auto

lemma parsePrice_numeral:
  assumes "decimal_numeral num" and "ends_token num rest"
  shows "parsePrice E (num @ rest) = strconv_atof E num"
proof -
  from assms(1) obtain sg ip dot ex where num: "num = sg @ ip @ dot @ ex"
    and sg: "sg = [] \<or> sg = ''+'' \<or> sg = ''-''"
    and ip: "list_all is_digit ip"
    and dot: "dot = [] \<or> (\<exists>fp. dot = CHR ''.'' # fp \<and> list_all is_digit fp)"
    and dig: "ip \<noteq> [] \<or> (dot \<noteq> [] \<and> tl dot \<noteq> [])"
    and ex: "ex = [] \<or> (\<exists>c sg2 ds. ex = c # sg2 @ ds \<and> c \<in> set ''eE'' \<and>
       (sg2 = [] \<or> sg2 = ''+'' \<or> sg2 = ''-'') \<and> ds \<noteq> [] \<and> list_all is_digit ds)"
    and strip: "strip_sign num = ip @ dot @ ex"
    by (rule decimal_numeralE)
  have dig': "ip \<noteq> [] \<or> dot \<noteq> []"
    using dig by auto
  have rest: "rest = [] \<or> (hd rest \<notin> set ''0123456789_.eEpP'' \<and>
               \<not> (ip = ''0'' \<and> dot = [] \<and> ex = [] \<and> hd rest \<in> set ''xX''))"
    using assms(2) strip by (cases rest) (auto simp: ends_token_def)
  have tok: "floatToken (num @ rest) = (num, rest)"
    using floatToken_numeral [OF sg ip dot dig' ex rest] by (simp add: num)
  have "CHR ''p'' \<notin> set sg" "CHR ''p'' \<notin> set ip" "CHR ''p'' \<notin> set dot" "CHR ''p'' \<notin> set ex"
    using sg ip dot ex no_p_in_digits by auto
  then have np: "CHR ''p'' \<notin> set num"
    by (simp add: num)
  have conv: "convertFloat E num = strconv_atof E num"
    unfolding convertFloat_def Let_def IndexByte_absent [OF np]
    using ParseFloat_numeral [OF sg ip dot dig ex, of E] by (simp add: num)
  obtain a as where m: "ip @ dot @ ex = a # as" "a \<in> set ''0123456789.''"
  proof (cases ip)
    case (Cons d ds)
    then have "is_digit d" using ip by simp
    then have mem: "d \<in> set ''0123456789.''" by (auto simp: is_digit_def)
    have e: "ip @ dot @ ex = d # ds @ dot @ ex" using Cons by simp
    show ?thesis by (rule that [OF e mem])
  next
    case Nil
    then obtain fp where "dot = CHR ''.'' # fp" using dot dig by auto
    then have e: "ip @ dot @ ex = CHR ''.'' # fp @ ex" using Nil by simp
    have mem: "CHR ''.'' \<in> set ''0123456789.''" by simp
    show ?thesis by (rule that [OF e mem])
  qed
  have nr: "num @ rest = sg @ a # (as @ rest)"
    using m(1) by (simp add: num)
  obtain c cs where c: "num @ rest = c # cs" "c \<in> set ''0123456789.+-''"
  proof (cases "sg = []")
    case True
    have mem: "a \<in> set ''0123456789.+-''" using m(2) by auto
    have e: "num @ rest = a # as @ rest" using nr True by simp
    show ?thesis by (rule that [OF e mem])
  next
    case False
    then have mem: "hd sg \<in> set ''0123456789.+-''" and e: "num @ rest = hd sg # a # as @ rest"
      using nr sg by auto
    show ?thesis by (rule that [OF e mem])
  qed
  have sk: "SkipSpace (num @ rest) = Inr (num @ rest)"
    unfolding c(1) using c(2) by (rule SkipSpace_numeral_start)
  have ne: "(num @ rest = []) = False"
    using c(1) by simp
  show ?thesis
    unfolding parsePrice_def Sscanf_f_def
    by (simp only: sk tok conv ne sum.case if_False fst_conv)
qed

text \<open>
  C10, as the code has it. For a price text made of a decimal numeral followed by
  text that ends its token (\<open>1.5abc\<close>, for one), \<^verbatim>\<open>parsePrice\<close> returns what the
  conversion of the numeral alone returns, which is also what it returns on the
  numeral alone: the text after the token is ignored. When that conversion gives a
  value, a channel is given and a callback is registered, \<^verbatim>\<open>dispatch\<close> calls the
  callback with an update carrying this value.
\<close>

theorem parsePrice_ignores_trailing_text:
  assumes "decimal_numeral num" and "ends_token num rest"
  shows "parsePrice E (num @ rest) = strconv_atof E num \<and>
         parsePrice E (num @ rest) = parsePrice E num \<and>
         (\<forall>v. strconv_atof E num = Inr v \<and> channel \<noteq> [] \<and> messageHandler w \<longrightarrow>
            new_events w (dispatch E \<lparr>m_DataType = channel, m_Data_Price = num @ rest\<rparr> w) =
              [Handler \<lparr>Type = ''priceUpdate'', Symbol = parseSymbol channel, Price = v\<rparr>])"
proof -
  have p: "parsePrice E (num @ rest) = strconv_atof E num"
    using assms by (rule parsePrice_numeral)
  have "ends_token num []"
    by (simp add: ends_token_def)
  with assms(1) have "parsePrice E (num @ []) = strconv_atof E num"
    by (rule parsePrice_numeral)
  then have q: "parsePrice E num = strconv_atof E num"
    by simp
  have "num \<noteq> []"
    using assms(1) by (auto simp: decimal_numeral_def strip_sign_def)
  then have ne: "num @ rest \<noteq> []"
    by simp
  have "new_events w (dispatch E \<lparr>m_DataType = channel, m_Data_Price = num @ rest\<rparr> w) =
      [Handler \<lparr>Type = ''priceUpdate'', Symbol = parseSymbol channel, Price = v\<rparr>]"
    if "strconv_atof E num = Inr v" "channel \<noteq> []" "messageHandler w" for v
    using that ne p by (simp add: dispatch_def emit_def new_events_def Let_def)
  with p q show ?thesis by simp
qed

theorem parsePrice_trailing_text_witness:
  "parsePrice E0 ''1.5abc'' = Inr (Finite (3 / 2)) \<and>
   new_events w0 (dispatch E0 \<lparr>m_DataType = ''BTC-USDT@trade'', m_Data_Price = ''1.5abc''\<rparr> w0) =
     [Handler \<lparr>Type = ''priceUpdate'', Symbol = ''BTC-USDT'', Price = Finite (3 / 2)\<rparr>]"
proof -
  have h1: "decimal_numeral ''1.5''"
    by (simp add: decimal_numeral_def strip_sign_def is_digit_def)
  have h2: "ends_token ''1.5'' ''abc''"
    by (simp add: ends_token_def)
  have a: "strconv_atof E0 ''1.5'' = Inr (Finite (3 / 2))"
    by (simp add: E0_def atof0_def digit_val_def byte_def)
  have h: "messageHandler w0"
    by (simp add: w0_def NewBingXWebSocket_def)
  have s: "parseSymbol ''BTC-USDT@trade'' = ''BTC-USDT''"
    by (simp add: parseSymbol_def IndexRune_def Let_def)
  show ?thesis
    using parsePrice_ignores_trailing_text [OF h1 h2, of E0 "''BTC-USDT@trade''" w0] a h s
    by simp
qed

text \<open>
  C10 as stated fails: \<open>1.5eur\<close> begins with the numeral \<open>1.5\<close>, which parses, and goes
  on with letters; the scanner takes \<open>1.5e\<close> as the token, the conversion rejects it,
  and the frame is dropped with the diagnostic of an invalid price.
\<close>

theorem parsePrice_numeric_prefix_counterexample:
  "parsePrice E0 ''1.5'' = Inr (Finite (3 / 2)) \<and>
   parsePrice E0 ''1.5eur'' = Inl Err_strconv \<and>
   new_events w0 (dispatch E0 \<lparr>m_DataType = ''BTC-USDT@trade'', m_Data_Price = ''1.5eur''\<rparr> w0) =
     [Log (Log_invalid_price ''1.5eur'')]"
proof -
  have a: "parsePrice E0 ''1.5'' = Inr (Finite (3 / 2))"
    by (simp add: scan_defs E0_def atof0_def)
  have b: "parsePrice E0 ''1.5eur'' = Inl Err_strconv"
    by (simp add: scan_defs)
  show ?thesis
    using a b by (simp add: dispatch_def emit_def new_events_def)
qed

end
